theory Spec2Isabelle
  imports Main "HOL-Library.Word" "HOL-Library.Multiset" "HOL-Library.Product_Lexorder"
begin

section \<open>The low memory killer of drivers/staging/android/lowmemorykiller.c\<close>

text \<open>
  The driver is built for the 32-bit ARM target of this kernel tree: \<open>int\<close>,
  \<open>unsigned long\<close>, \<open>size_t\<close> and \<open>uint32_t\<close> are 32 bits wide (the source itself
  relies on it: \<open>min_array = lowmem_minfree\<close> reads an \<open>int[6]\<close> through a
  \<open>size_t *\<close>). Every C integer that takes part in arithmetic or in a mixed
  signed/unsigned comparison is a \<open>32 word\<close>: \<open>+\<close> and \<open>-\<close> wrap, and \<open><\<close> on words
  is the unsigned comparison C performs once one operand is a \<open>size_t\<close> or a
  \<open>uint32_t\<close>. The two quantities the code only ever compares as \<open>int\<close> with
  \<open>int\<close>, the oom_score_adj of a task and its tasksize, are \<open>int\<close>.
  The model is the configuration the claims are about: \<open>ENHANCED_LMK_ROUTINE\<close> and
  \<open>LMK_COUNT_READ\<close> (both defined in the file) and \<open>CONFIG_ZRAM_FOR_ANDROID\<close>.
\<close>

type_synonym word32 = "32 word"

subsection \<open>What the kernel headers supply\<close>

text \<open>
  Constants and macros of headers that are not part of the driver are parameters:
  \<open>HZ\<close>, \<open>OOM_SCORE_ADJ_MAX\<close> (linux/oom.h) and the jiffies comparisons
  \<open>time_before_eq\<close> and \<open>time_before\<close> (linux/jiffies.h).
\<close>

record kernel =
  HZ :: word32
  OOM_SCORE_ADJ_MAX :: int
  time_before_eq :: "word32 \<Rightarrow> word32 \<Rightarrow> bool"
  time_before :: "word32 \<Rightarrow> word32 \<Rightarrow> bool"

subsection \<open>Driver state\<close>

text \<open>The file's static variables, \<open>s_reclaim\<close> included, and \<open>scan_mutex\<close>
  (\<open>True\<close> when held).\<close>

record lmk_state =
  scan_mutex :: bool
  lowmem_adj :: "int list"
  lowmem_adj_size :: int
  lowmem_minfree :: "word32 list"
  lowmem_minfree_size :: int
  lowmem_fork_boost_minfree :: "word32 list"
  lowmem_fork_boost_minfree_size :: int
  minfree_tmp :: "word32 list"
  lowmem_deathpending_timeout :: word32
  lowmem_fork_boost_timeout :: word32
  lowmem_fork_boost :: word32
  lmk_count :: word32
  nr_total_soft_reclaimed :: word32
  nr_total_soft_scanned :: word32
  nr_last_soft_reclaimed :: word32
  nr_last_soft_scanned :: word32
  kcompcached_running :: int
  need_to_reclaim :: int
  lmk_running :: int
  kcompcached_enable :: int
  idle_report :: int
  kcompcached :: bool
  rtcc_daemon :: "int option"
  prev_jiffy :: word32
  hidden_cgroup_counter :: int
  minimum_freeswap_pages :: word32
  minimun_reclaim_pages :: word32
  minimum_interval_time :: word32

definition LOWMEM_DEATHPENDING_DEPTH :: nat where
  "LOWMEM_DEATHPENDING_DEPTH = 3"

text \<open>\<open>lowmem_sleep_ms\<close> and \<open>lowmem_only_kswapd_sleep\<close> are static, initialised to 1
  and never written or exported as parameters.\<close>

definition lowmem_sleep_ms :: word32 where
  "lowmem_sleep_ms = 1"

definition lowmem_only_kswapd_sleep :: word32 where
  "lowmem_only_kswapd_sleep = 1"

text \<open>The static initialisers (statics without one are zero), with the tunables
  of \<open>CONFIG_ZRAM_FOR_ANDROID\<close> given the kernel's \<open>HZ\<close>.\<close>

definition initial_state :: "kernel \<Rightarrow> lmk_state" where
  "initial_state k = \<lparr>
     scan_mutex = False,
     lowmem_adj = [0, 1, 6, 12, 0, 0],
     lowmem_adj_size = 4,
     lowmem_minfree = [3 * 512, 2 * 1024, 4 * 1024, 16 * 1024, 0, 0],
     lowmem_minfree_size = 4,
     lowmem_fork_boost_minfree = [0, 0, 0, 5120, 6177, 6177],
     lowmem_fork_boost_minfree_size = 6,
     minfree_tmp = [0, 0, 0, 0, 0, 0],
     lowmem_deathpending_timeout = 0,
     lowmem_fork_boost_timeout = 0,
     lowmem_fork_boost = 0,
     lmk_count = 0,
     nr_total_soft_reclaimed = 0,
     nr_total_soft_scanned = 0,
     nr_last_soft_reclaimed = 0,
     nr_last_soft_scanned = 0,
     kcompcached_running = 0,
     need_to_reclaim = 0,
     lmk_running = 0,
     kcompcached_enable = 0,
     idle_report = 0,
     kcompcached = False,
     rtcc_daemon = None,
     prev_jiffy = 0,
     hidden_cgroup_counter = 0,
     minimum_freeswap_pages = 8192,
     minimun_reclaim_pages = 512,
     minimum_interval_time = 10 * HZ k \<rparr>"

subsection \<open>What the host supplies to one call of \<open>lowmem_shrink\<close>\<close>

record zone =
  is_normal :: bool
  watermark_min :: word32
  lowmem_reserve :: word32

text \<open>A process as \<open>for_each_process\<close> yields it. \<open>thread_memdie\<close> is the
  \<open>TIF_MEMDIE\<close> flag of each thread of its group, the task itself first;
  \<open>mm_rss\<close> is \<open>None\<close> when \<open>find_lock_task_mm\<close> finds no thread with an mm, and
  otherwise \<open>get_mm_rss\<close> of that mm as the \<open>int tasksize\<close> receives it.\<close>

record task =
  pid :: int
  pf_kthread :: bool
  thread_memdie :: "bool list"
  mm_rss :: "int option"
  oom_score_adj :: int

record shrink_env =
  nr_to_scan :: word32
  current_is_kswapd :: bool
  jiffies :: word32
  zones :: "zone list"
  nr_free_pages :: word32
  nr_file_pages :: word32
  nr_shmem :: word32
  nr_mlock :: word32
  total_swapcache_pages :: word32
  nr_active_anon :: word32
  nr_active_file :: word32
  nr_inactive_anon :: word32
  nr_inactive_file :: word32
  tasks :: "task list"

text \<open>What a call does to the outside, in order.\<close>

datatype event =
  Msleep word32
  | Send_sigkill int
  | Set_tif_memdie int
  | Set_lmk_running int
  | Send_sigusr1 int
  | Wake_up_kcompcached

subsection \<open>Threshold lookup (lines 252 to 290)\<close>

fun reserved_free_of :: "zone list \<Rightarrow> word32" where
  "reserved_free_of [] = 0"
| "reserved_free_of (z # zs) =
     (if is_normal z then watermark_min z + lowmem_reserve z else reserved_free_of zs)"

definition other_free_of :: "shrink_env \<Rightarrow> word32" where
  "other_free_of e = nr_free_pages e"

definition other_file_of :: "shrink_env \<Rightarrow> word32" where
  "other_file_of e = nr_file_pages e - nr_shmem e - nr_mlock e - total_swapcache_pages e"

definition boosted :: "kernel \<Rightarrow> shrink_env \<Rightarrow> lmk_state \<Rightarrow> bool" where
  "boosted k e s =
     (lowmem_fork_boost s \<noteq> 0 \<and> time_before_eq k (jiffies e) (lowmem_fork_boost_timeout s))"

text \<open>The loop that fills \<open>minfree_tmp\<close> during a boost window.\<close>

definition fill_minfree_tmp :: "lmk_state \<Rightarrow> word32 list" where
  "fill_minfree_tmp s =
     fold (\<lambda>i tmp. tmp[i := lowmem_minfree s ! i + lowmem_fork_boost_minfree s ! i])
       [0 ..< nat (lowmem_minfree_size s)] (minfree_tmp s)"

text \<open>What lines 269 to 274 leave in the driver state.\<close>

definition boost_minfree :: "kernel \<Rightarrow> shrink_env \<Rightarrow> lmk_state \<Rightarrow> lmk_state" where
  "boost_minfree k e s = (if boosted k e s then s\<lparr>minfree_tmp := fill_minfree_tmp s\<rparr> else s)"

definition array_size_of :: "lmk_state \<Rightarrow> nat" where
  "array_size_of s =
     (let array_size = 6;
          array_size = (if lowmem_adj_size s < array_size then lowmem_adj_size s else array_size);
          array_size = (if lowmem_minfree_size s < array_size then lowmem_minfree_size s else array_size)
      in nat array_size)"

text \<open>The condition of line 284: both operands of each \<open><\<close> are converted to
  \<open>size_t\<close>, the type of \<open>min_array[i]\<close>.\<close>

definition crossed :: "word32 \<Rightarrow> word32 \<Rightarrow> word32 \<Rightarrow> word32 \<Rightarrow> bool" where
  "crossed other_free reserved_free other_file thr =
     (other_free - reserved_free < thr \<and> other_file < thr)"

text \<open>The loop of lines 283 to 290: the first index whose entry is crossed.\<close>

definition first_crossed ::
  "word32 list \<Rightarrow> nat \<Rightarrow> word32 \<Rightarrow> word32 \<Rightarrow> word32 \<Rightarrow> nat option" where
  "first_crossed min_array array_size other_free reserved_free other_file =
     find (\<lambda>i. crossed other_free reserved_free other_file (min_array ! i)) [0 ..< array_size]"

definition min_array_of :: "kernel \<Rightarrow> shrink_env \<Rightarrow> lmk_state \<Rightarrow> word32 list" where
  "min_array_of k e s = (if boosted k e s then fill_minfree_tmp s else lowmem_minfree s)"

definition crossed_index :: "kernel \<Rightarrow> shrink_env \<Rightarrow> lmk_state \<Rightarrow> nat option" where
  "crossed_index k e s =
     first_crossed (min_array_of k e s) (array_size_of s)
       (other_free_of e) (reserved_free_of (zones e)) (other_file_of e)"

definition min_score_adj_of :: "kernel \<Rightarrow> shrink_env \<Rightarrow> lmk_state \<Rightarrow> int" where
  "min_score_adj_of k e s =
     (case crossed_index k e s of
        None \<Rightarrow> OOM_SCORE_ADJ_MAX k + 1
      | Some i \<Rightarrow> lowmem_adj s ! i)"

subsection \<open>The candidate pool (lines 363 to 399)\<close>

text \<open>The three local arrays \<open>selected\<close>, \<open>selected_tasksize\<close> and
  \<open>selected_oom_score_adj\<close> with their two cursors. A slot of \<open>selected\<close> is
  \<open>None\<close> for \<open>NULL\<close>.\<close>

record pool =
  selected :: "task option list"
  selected_tasksize :: "int list"
  selected_oom_score_adj :: "int list"
  all_selected_oom :: nat
  max_selected_oom_idx :: nat

text \<open>The locals as they stand when the process loop starts: the initialisers
  of lines 216 to 228, then the loop of lines 311 and 312.\<close>

definition empty_pool :: "int \<Rightarrow> pool" where
  "empty_pool min_score_adj = \<lparr>
     selected = replicate LOWMEM_DEATHPENDING_DEPTH None,
     selected_tasksize = replicate LOWMEM_DEATHPENDING_DEPTH 0,
     selected_oom_score_adj = replicate LOWMEM_DEATHPENDING_DEPTH min_score_adj,
     all_selected_oom = 0,
     max_selected_oom_idx = 0 \<rparr>"

text \<open>One round of the loop of lines 387 to 393.\<close>

definition weakest_step :: "nat \<Rightarrow> pool \<Rightarrow> pool" where
  "weakest_step i pl =
     (let m = max_selected_oom_idx pl in
      if selected_oom_score_adj pl ! i < selected_oom_score_adj pl ! m
      then pl\<lparr>max_selected_oom_idx := i\<rparr>
      else if selected_oom_score_adj pl ! i = selected_oom_score_adj pl ! m \<and>
              selected_tasksize pl ! i < selected_tasksize pl ! m
      then pl\<lparr>max_selected_oom_idx := i\<rparr>
      else pl)"

definition find_weakest :: "pool \<Rightarrow> pool" where
  "find_weakest pl = fold weakest_step [0 ..< LOWMEM_DEATHPENDING_DEPTH] pl"

text \<open>Lines 364 to 376: whether the candidate enters, and into which slot.\<close>

definition is_exist_oom_task :: "int \<Rightarrow> int \<Rightarrow> pool \<Rightarrow> bool \<times> pool" where
  "is_exist_oom_task adj tasksize pl =
     (if all_selected_oom pl < LOWMEM_DEATHPENDING_DEPTH then
        (case find (\<lambda>i. selected pl ! i = None) [0 ..< LOWMEM_DEATHPENDING_DEPTH] of
           Some i \<Rightarrow> (True, pl\<lparr>max_selected_oom_idx := i\<rparr>)
         | None \<Rightarrow> (False, pl))
      else if selected_oom_score_adj pl ! max_selected_oom_idx pl < adj \<or>
              (selected_oom_score_adj pl ! max_selected_oom_idx pl = adj \<and>
               selected_tasksize pl ! max_selected_oom_idx pl < tasksize)
      then (True, pl)
      else (False, pl))"

text \<open>Lines 378 to 394: store the candidate, count it, and once the pool is full
  look for its weakest member again.\<close>

definition store_candidate :: "task \<Rightarrow> int \<Rightarrow> int \<Rightarrow> pool \<Rightarrow> pool" where
  "store_candidate p adj tasksize pl =
     (let m = max_selected_oom_idx pl;
          pl = pl\<lparr>selected := (selected pl)[m := Some p],
                  selected_tasksize := (selected_tasksize pl)[m := tasksize],
                  selected_oom_score_adj := (selected_oom_score_adj pl)[m := adj]\<rparr>;
          pl = (if all_selected_oom pl < LOWMEM_DEATHPENDING_DEPTH
                then pl\<lparr>all_selected_oom := all_selected_oom pl + 1\<rparr> else pl)
      in if all_selected_oom pl = LOWMEM_DEATHPENDING_DEPTH then find_weakest pl else pl)"

definition pool_offer :: "task \<Rightarrow> int \<Rightarrow> int \<Rightarrow> pool \<Rightarrow> pool" where
  "pool_offer p adj tasksize pl =
     (case is_exist_oom_task adj tasksize pl of
        (True, pl') \<Rightarrow> store_candidate p adj tasksize pl'
      | (False, pl') \<Rightarrow> pl')"

subsection \<open>The process loop (lines 322 to 415)\<close>

text \<open>\<open>test_task_flag\<close>: the do-while over the threads of the group.\<close>

fun test_task_flag :: "bool list \<Rightarrow> bool" where
  "test_task_flag [] = False"
| "test_task_flag (f # fs) = (if f then True else test_task_flag fs)"

text \<open>The loop returns \<open>None\<close> where the source leaves \<open>lowmem_shrink\<close> from
  inside it (line 345). \<open>deathpending\<close> is
  \<open>time_before_eq(jiffies, lowmem_deathpending_timeout)\<close>; the model reads
  \<open>jiffies\<close> once per call.\<close>

fun scan_tasks :: "bool \<Rightarrow> int \<Rightarrow> task list \<Rightarrow> pool \<Rightarrow> pool option" where
  "scan_tasks deathpending min_score_adj [] pl = Some pl"
| "scan_tasks deathpending min_score_adj (tsk # rest) pl =
     (if pf_kthread tsk then scan_tasks deathpending min_score_adj rest pl
      else if deathpending \<and> test_task_flag (thread_memdie tsk) then None
      else (case mm_rss tsk of
              None \<Rightarrow> scan_tasks deathpending min_score_adj rest pl
            | Some tasksize \<Rightarrow>
                if oom_score_adj tsk < min_score_adj
                then scan_tasks deathpending min_score_adj rest pl
                else if tasksize \<le> 0
                then scan_tasks deathpending min_score_adj rest pl
                else scan_tasks deathpending min_score_adj rest
                       (pool_offer tsk (oom_score_adj tsk) tasksize pl)))"

subsection \<open>Killing the selected tasks (lines 418 to 433)\<close>

text \<open>The accumulator is \<open>rem\<close>, the driver state and the events so far.\<close>

definition kill_step ::
  "kernel \<Rightarrow> shrink_env \<Rightarrow> pool \<Rightarrow> nat \<Rightarrow> word32 \<times> lmk_state \<times> event list
     \<Rightarrow> word32 \<times> lmk_state \<times> event list" where
  "kill_step k e pl i acc =
     (case acc of (rem, s, evs) \<Rightarrow>
        (case selected pl ! i of
           None \<Rightarrow> (rem, s, evs)
         | Some p \<Rightarrow>
             (rem - word_of_int (selected_tasksize pl ! i),
              s\<lparr>lowmem_deathpending_timeout := jiffies e + HZ k,
                lmk_count := lmk_count s + 1\<rparr>,
              evs @ [Send_sigkill (pid p), Set_tif_memdie (pid p)])))"

definition kill_selected ::
  "kernel \<Rightarrow> shrink_env \<Rightarrow> pool \<Rightarrow> word32 \<times> lmk_state \<times> event list
     \<Rightarrow> word32 \<times> lmk_state \<times> event list" where
  "kill_selected k e pl acc = fold (kill_step k e pl) [0 ..< LOWMEM_DEATHPENDING_DEPTH] acc"

subsection \<open>\<open>lowmem_shrink\<close>\<close>

text \<open>\<open>!(lowmem_only_kswapd_sleep && !current_is_kswapd())\<close> guards each
  \<open>msleep_interruptible(lowmem_sleep_ms)\<close>.\<close>

definition maybe_sleep :: "shrink_env \<Rightarrow> event list" where
  "maybe_sleep e =
     (if \<not> (lowmem_only_kswapd_sleep \<noteq> 0 \<and> \<not> current_is_kswapd e)
      then [Msleep lowmem_sleep_ms] else [])"

definition rem_of :: "shrink_env \<Rightarrow> word32" where
  "rem_of e = nr_active_anon e + nr_active_file e + nr_inactive_anon e + nr_inactive_file e"

text \<open>The result is the returned \<open>int\<close> (as its 32 bits), the driver state after
  the call and the events of the call.\<close>

definition lowmem_shrink ::
  "kernel \<Rightarrow> shrink_env \<Rightarrow> lmk_state \<Rightarrow> word32 \<times> lmk_state \<times> event list" where
  "lowmem_shrink k e s =
     (if nr_to_scan e > 0 \<and> scan_mutex s then (0, s, maybe_sleep e)
      else
        let s = (if nr_to_scan e > 0 then s\<lparr>scan_mutex := True\<rparr> else s);
            min_score_adj = min_score_adj_of k e s;
            s = boost_minfree k e s;
            rem = rem_of e
        in if nr_to_scan e \<le> 0 \<or> min_score_adj = OOM_SCORE_ADJ_MAX k + 1
           then (rem, (if nr_to_scan e > 0 then s\<lparr>scan_mutex := False\<rparr> else s), [])
           else
             let s = s\<lparr>lmk_running := 1\<rparr>;
                 deathpending = time_before_eq k (jiffies e) (lowmem_deathpending_timeout s)
             in (case scan_tasks deathpending min_score_adj (tasks e) (empty_pool min_score_adj) of
                   None \<Rightarrow>
                     (0, s\<lparr>lmk_running := 0, scan_mutex := False\<rparr>,
                      [Set_lmk_running 1, Set_lmk_running 0] @ maybe_sleep e)
                 | Some pl \<Rightarrow>
                     (case kill_selected k e pl (rem, s, [Set_lmk_running 1]) of
                        (rem, s, evs) \<Rightarrow>
                          (rem, s\<lparr>lmk_running := 0, scan_mutex := False\<rparr>,
                           evs @ [Set_lmk_running 0]))))"

subsection \<open>The idle-time trigger \<open>could_cswap\<close> (lines 474 to 517)\<close>

text \<open>What the host supplies to one call. \<open>nr_swap_pages\<close> is compared with a
  \<open>uint32_t\<close>, hence as an unsigned 32-bit value.\<close>

record cswap_env =
  cs_jiffies :: word32
  kswapd_thread_on :: int
  nr_swap_pages :: word32
  kcompcached_cpu_idle :: bool
  this_cpu_loadx :: word32

definition could_cswap :: "kernel \<Rightarrow> cswap_env \<Rightarrow> lmk_state \<Rightarrow> lmk_state \<times> event list" where
  "could_cswap k c s =
     (if hidden_cgroup_counter s \<le> 0 \<and> need_to_reclaim s \<noteq> 1 then (s, [])
      else if time_before k (cs_jiffies c) (prev_jiffy s + minimum_interval_time s) then (s, [])
      else if lmk_running s = 1 \<or> kswapd_thread_on c = 1 then (s, [])
      else if nr_swap_pages c < minimum_freeswap_pages s then (s, [])
      else if \<not> kcompcached s then (s, [])
      else if kcompcached_enable s = 0 then (s, [])
      else if kcompcached_cpu_idle c \<and> this_cpu_loadx c = 0 then
        (case (if idle_report s = 1 \<and> hidden_cgroup_counter s > 0 then rtcc_daemon s else None) of
           Some daemon \<Rightarrow>
             (s\<lparr>hidden_cgroup_counter := hidden_cgroup_counter s - 1,
               idle_report := 0,
               prev_jiffy := cs_jiffies c\<rparr>,
              [Send_sigusr1 daemon])
         | None \<Rightarrow>
             if need_to_reclaim s \<noteq> 1 then (s\<lparr>idle_report := 1\<rparr>, [])
             else if kcompcached_running s = 0 then
               (s\<lparr>kcompcached_running := 1, idle_report := 1, prev_jiffy := cs_jiffies c\<rparr>,
                [Wake_up_kcompcached])
             else (s, []))
      else (s, []))"

subsection \<open>The background worker (lines 534 to 598)\<close>

definition cancel_soft_reclaim :: "lmk_state \<Rightarrow> lmk_state" where
  "cancel_soft_reclaim s = s\<lparr>need_to_reclaim := 0\<rparr>"

text \<open>A zone as \<open>soft_reclaim\<close> meets it: its two tests and what
  \<open>mem_cgroup_soft_limit_reclaim\<close> returns for it and stores into
  \<open>nr_soft_scanned\<close>. A node is its zones 0 and 1.\<close>

record reclaim_zone =
  populated_zone :: bool
  all_unreclaimable :: bool
  soft_limit_reclaimed :: word32
  soft_limit_scanned :: word32

type_synonym node = "reclaim_zone \<times> reclaim_zone"

text \<open>The body of the inner loop; the accumulator is \<open>nr_reclaimed\<close> and the state.\<close>

definition soft_reclaim_zone :: "reclaim_zone \<Rightarrow> word32 \<times> lmk_state \<Rightarrow> word32 \<times> lmk_state" where
  "soft_reclaim_zone z acc =
     (case acc of (nr_reclaimed, s) \<Rightarrow>
        if \<not> populated_zone z then (nr_reclaimed, s)
        else if all_unreclaimable z then (nr_reclaimed, s)
        else (nr_reclaimed + soft_limit_reclaimed z,
              s\<lparr>nr_last_soft_reclaimed := soft_limit_reclaimed z,
                nr_last_soft_scanned := soft_limit_scanned z,
                nr_total_soft_reclaimed := nr_total_soft_reclaimed s + soft_limit_reclaimed z,
                nr_total_soft_scanned := nr_total_soft_scanned s + soft_limit_scanned z\<rparr>))"

definition soft_reclaim_node :: "node \<Rightarrow> word32 \<times> lmk_state \<Rightarrow> word32 \<times> lmk_state" where
  "soft_reclaim_node n acc = soft_reclaim_zone (snd n) (soft_reclaim_zone (fst n) acc)"

text \<open>\<open>soft_reclaim\<close> returns \<open>nr_reclaimed\<close> as an \<open>int\<close>, which its caller compares
  with the \<open>uint32_t minimun_reclaim_pages\<close>: the same 32 bits, read unsigned.\<close>

definition soft_reclaim :: "node list \<Rightarrow> lmk_state \<Rightarrow> word32 \<times> lmk_state" where
  "soft_reclaim nodes s = fold soft_reclaim_node nodes (0, s)"

text \<open>One pass of the worker: the body of the loop of \<open>do_compcache\<close> from line 589
  to the \<open>schedule()\<close> in which it sleeps.\<close>

definition compcache_pass :: "node list \<Rightarrow> lmk_state \<Rightarrow> lmk_state" where
  "compcache_pass nodes s =
     (case soft_reclaim nodes s of (nr_reclaimed, s') \<Rightarrow>
        (let s' = (if nr_reclaimed < minimun_reclaim_pages s' then cancel_soft_reclaim s' else s')
         in s'\<lparr>kcompcached_running := 0\<rparr>))"

text \<open>The worker runs one pass when it starts and one each time it is woken, until
  \<open>kthread_should_stop\<close>. Each run carries what \<open>kthread_should_stop\<close> answers and the
  zones as the pass finds them; the worker's history is given by the runs it gets.\<close>

fun do_compcache :: "(bool \<times> node list) list \<Rightarrow> lmk_state \<Rightarrow> lmk_state" where
  "do_compcache [] s = s"
| "do_compcache ((should_stop, nodes) # wakeups) s =
     (if should_stop then s else do_compcache wakeups (compcache_pass nodes s))"

subsection \<open>Switches of the worker and module start (lines 519 to 532, 636 to 669)\<close>

definition enable_soft_reclaim :: "lmk_state \<Rightarrow> lmk_state" where
  "enable_soft_reclaim s = s\<lparr>kcompcached_enable := 1\<rparr>"

definition disable_soft_reclaim :: "lmk_state \<Rightarrow> lmk_state" where
  "disable_soft_reclaim s = s\<lparr>kcompcached_enable := 0\<rparr>"

definition need_soft_reclaim :: "lmk_state \<Rightarrow> lmk_state" where
  "need_soft_reclaim s = s\<lparr>need_to_reclaim := 1\<rparr>"

text \<open>\<open>lowmem_init\<close> at time \<open>now\<close>. When the sysfs class or its file cannot be
  created the worker is not started (\<open>class_ok\<close> is \<open>False\<close>); \<open>kthread_run\<close> is taken
  to succeed.\<close>

definition lowmem_init :: "bool \<Rightarrow> word32 \<Rightarrow> lmk_state \<Rightarrow> lmk_state" where
  "lowmem_init class_ok now s =
     (if class_ok then
        (enable_soft_reclaim
           (s\<lparr>kcompcached := True, need_to_reclaim := 0, kcompcached_running := 0,
              idle_report := 0\<rparr>))\<lparr>prev_jiffy := now\<rparr>
      else s)"

section \<open>Notions the properties are stated with\<close>

text \<open>The pair lines 372 to 374 and 388 to 392 compare: oom_score_adj first, then
  tasksize. Pairs are ordered lexicographically.\<close>

definition rank :: "task \<Rightarrow> int \<times> int" where
  "rank p = (oom_score_adj p, (case mm_rss p of None \<Rightarrow> 0 | Some tasksize \<Rightarrow> tasksize))"

text \<open>The tasks that reach line 363: not skipped at lines 329, 350, 354 or 360.\<close>

definition eligible :: "int \<Rightarrow> task \<Rightarrow> bool" where
  "eligible min_score_adj p =
     (\<not> pf_kthread p \<and>
      (case mm_rss p of None \<Rightarrow> False
       | Some tasksize \<Rightarrow> min_score_adj \<le> oom_score_adj p \<and> 0 < tasksize))"

text \<open>The tasks on which line 333 answers 1.\<close>

definition memdie_pending :: "task \<Rightarrow> bool" where
  "memdie_pending tsk = (\<not> pf_kthread tsk \<and> test_task_flag (thread_memdie tsk))"

fun non_null :: "'a option list \<Rightarrow> 'a list" where
  "non_null [] = []"
| "non_null (None # xs) = non_null xs"
| "non_null (Some x # xs) = x # non_null xs"

text \<open>The tasks the loop of lines 418 to 433 signals: the non-\<open>NULL\<close> slots.\<close>

definition selected_tasks :: "pool \<Rightarrow> task list" where
  "selected_tasks pl = non_null (selected pl)"

text \<open>The values a call stores into \<open>s_reclaim.lmk_running\<close>, in order.\<close>

fun lmk_running_writes :: "event list \<Rightarrow> int list" where
  "lmk_running_writes [] = []"
| "lmk_running_writes (Set_lmk_running v # evs) = v # lmk_running_writes evs"
| "lmk_running_writes (ev # evs) = lmk_running_writes evs"

text \<open>The zones \<open>soft_reclaim\<close> visits, and those it reclaims from.\<close>

definition zones_of :: "node list \<Rightarrow> reclaim_zone list" where
  "zones_of nodes = concat (map (\<lambda>n. [fst n, snd n]) nodes)"

definition reclaimable :: "reclaim_zone \<Rightarrow> bool" where
  "reclaimable z = (populated_zone z \<and> \<not> all_unreclaimable z)"

subsection \<open>Invariants of the candidate pool\<close>

definition slot_rank :: "pool \<Rightarrow> nat \<Rightarrow> int \<times> int" where
  "slot_rank pl i = (selected_oom_score_adj pl ! i, selected_tasksize pl ! i)"

text \<open>\<open>P\<close> holds three highest elements of \<open>M\<close> (all of \<open>M\<close> when it has fewer).\<close>

definition top_inv :: "(int \<times> int) multiset \<Rightarrow> (int \<times> int) multiset \<Rightarrow> bool" where
  "top_inv P M = (P \<subseteq># M \<and> size P = min 3 (size M) \<and> (\<forall>x\<in>#P. \<forall>y\<in>#M - P. y \<le> x))"

text \<open>The pool after the candidates \<open>ds\<close> were offered: the first
  \<open>all_selected_oom\<close> slots are filled, the side arrays hold the ranks of the tasks
  in the slots, the tasks are three highest-ranked of \<open>ds\<close>, and once the pool is
  full \<open>max_selected_oom_idx\<close> points at a lowest-ranked slot.\<close>

definition pool_inv :: "pool \<Rightarrow> task list \<Rightarrow> bool" where
  "pool_inv pl ds =
     (\<exists>ts. length ts = all_selected_oom pl \<and> length ts \<le> 3 \<and>
        selected pl = map Some ts @ replicate (3 - length ts) None \<and>
        length (selected_oom_score_adj pl) = 3 \<and> length (selected_tasksize pl) = 3 \<and>
        (\<forall>i<length ts. rank (ts ! i) = slot_rank pl i) \<and>
        mset ts \<subseteq># mset ds \<and>
        top_inv (mset (map rank ts)) (mset (map rank ds)) \<and>
        (length ts = 3 \<longrightarrow> max_selected_oom_idx pl < 3 \<and>
           (\<forall>i<3. slot_rank pl (max_selected_oom_idx pl) \<le> slot_rank pl i)))"

subsection \<open>Concrete inputs\<close>

text \<open>A kernel with \<open>HZ = 100\<close>, \<open>OOM_SCORE_ADJ_MAX = 1000\<close> and the wrap-safe
  jiffies comparisons.\<close>

definition linux_kernel :: kernel where
  "linux_kernel = \<lparr>HZ = 100, OOM_SCORE_ADJ_MAX = 1000,
     time_before_eq = (\<lambda>a b. 0 \<le> sint (b - a)),
     time_before = (\<lambda>a b. sint (a - b) < 0)\<rparr>"

text \<open>A call with \<open>nr_to_scan = 1\<close> that finds 1800 free pages, 500 file pages, no
  normal zone (so \<open>reserved_free = 0\<close>) and no process.\<close>

definition sample_env :: shrink_env where
  "sample_env = \<lparr>nr_to_scan = 1, current_is_kswapd = False, jiffies = 5000, zones = [],
     nr_free_pages = 1800, nr_file_pages = 500, nr_shmem = 0, nr_mlock = 0,
     total_swapcache_pages = 0,
     nr_active_anon = 10, nr_active_file = 20, nr_inactive_anon = 30, nr_inactive_file = 40,
     tasks = []\<rparr>"

text \<open>A user process with one thread, not dying.\<close>

definition candidate :: "int \<Rightarrow> int \<Rightarrow> int \<Rightarrow> task" where
  "candidate p adj tasksize =
     \<lparr>pid = p, pf_kthread = False, thread_memdie = [False], mm_rss = Some tasksize,
      oom_score_adj = adj\<rparr>"


text \<open>The driver after \<open>lowmem_init\<close> at time 0 and a \<open>need_soft_reclaim\<close>.\<close>

definition armed_state :: lmk_state where
  "armed_state = need_soft_reclaim (lowmem_init True 0 (initial_state linux_kernel))"

text \<open>A call of \<open>could_cswap\<close> at time 6000 on an idle processor, kswapd asleep,
  10000 swap pages free.\<close>

definition idle_env :: cswap_env where
  "idle_env = \<lparr>cs_jiffies = 6000, kswapd_thread_on = 0, nr_swap_pages = 10000,
     kcompcached_cpu_idle = True, this_cpu_loadx = 0\<rparr>"

text \<open>A populated, reclaimable zone that yields \<open>n\<close> pages for \<open>2 * n\<close> scanned.\<close>

definition zone_yield :: "word32 \<Rightarrow> reclaim_zone" where
  "zone_yield n = \<lparr>populated_zone = True, all_unreclaimable = False,
     soft_limit_reclaimed = n, soft_limit_scanned = 2 * n\<rparr>"

section \<open>Threshold lookup\<close>

lemmas lookup_defs = min_score_adj_of_def crossed_index_def first_crossed_def crossed_def
  min_array_of_def boosted_def array_size_of_def other_free_of_def other_file_of_def

text \<open>The lookup returns the first index, in table order, whose entry is crossed.\<close>

lemma crossed_index_SomeD:
  "crossed_index k e s = Some i \<Longrightarrow>
     i < array_size_of s \<and>
     crossed (other_free_of e) (reserved_free_of (zones e)) (other_file_of e)
       (min_array_of k e s ! i) \<and>
     (\<forall>j<i. \<not> crossed (other_free_of e) (reserved_free_of (zones e)) (other_file_of e)
               (min_array_of k e s ! j))"
  unfolding crossed_index_def first_crossed_def
  by (auto simp: find_Some_iff)

lemma crossed_index_SomeI:
  "i < array_size_of s \<Longrightarrow>
   crossed (other_free_of e) (reserved_free_of (zones e)) (other_file_of e)
     (min_array_of k e s ! i) \<Longrightarrow>
   (\<forall>j<i. \<not> crossed (other_free_of e) (reserved_free_of (zones e)) (other_file_of e)
             (min_array_of k e s ! j)) \<Longrightarrow>
   crossed_index k e s = Some i"
  unfolding crossed_index_def first_crossed_def
  by (auto simp: find_Some_iff)

lemma crossed_index_None:
  "crossed_index k e s = None \<longleftrightarrow>
     (\<forall>j<array_size_of s.
        \<not> crossed (other_free_of e) (reserved_free_of (zones e)) (other_file_of e)
            (min_array_of k e s ! j))"
  unfolding crossed_index_def first_crossed_def
  by (auto simp: find_None_iff)

text \<open>What the unsigned comparison of line 284 means for the \<open>int\<close> readings: for
  readings that are not negative it is the comparison of the numbers; a
  negative \<open>other_free - reserved_free\<close> or a negative \<open>other_file\<close> crosses no
  threshold below \<open>2 ^ 31\<close>.\<close>

lemma uint_sint_cases:
  fixes x :: word32
  shows "uint x = (if 0 \<le> sint x then sint x else sint x + 2 ^ 32)"
proof -
  have r: "- (2 ^ 31) \<le> sint x" "sint x < 2 ^ 31"
    using sint_ge[of x] sint_lt[of x] by simp_all
  have u: "uint x = sint x mod 2 ^ 32"
    by (simp add: uint_sint take_bit_eq_mod)
  show ?thesis
  proof (cases "0 \<le> sint x")
    case True
    with r u show ?thesis by simp
  next
    case False
    have "sint x mod 2 ^ 32 = (sint x + 2 ^ 32) mod 2 ^ 32" by simp
    also have "\<dots> = sint x + 2 ^ 32" using r False by (intro mod_pos_pos_trivial) simp_all
    finally show ?thesis using u False by simp
  qed
qed

lemma crossed_nonnegative:
  assumes "0 \<le> sint (other_free - reserved_free)" "0 \<le> sint other_file"
  shows "crossed other_free reserved_free other_file thr \<longleftrightarrow>
           sint (other_free - reserved_free) < uint thr \<and> sint other_file < uint thr"
  using assms uint_sint_cases[of "other_free - reserved_free"] uint_sint_cases[of other_file]
  by (simp add: crossed_def word_less_def)

lemma crossed_negative:
  assumes "sint (other_free - reserved_free) < 0 \<or> sint other_file < 0" "0 \<le> sint thr"
  shows "\<not> crossed other_free reserved_free other_file thr"
proof -
  have t: "uint thr < 2 ^ 31"
    using assms(2) uint_sint_cases[of thr] sint_lt[of thr] by simp
  have n: "2 ^ 31 \<le> uint x" if "sint x < 0" for x :: word32
    using that uint_sint_cases[of x] sint_ge[of x] by simp
  show ?thesis
    using assms(1) t n[of "other_free - reserved_free"] n[of other_file]
    by (auto simp: crossed_def word_less_def)
qed


lemma negative_reading_no_pressure:
  assumes "sint (other_free_of e - reserved_free_of (zones e)) < 0 \<or> sint (other_file_of e) < 0"
    "\<forall>i<array_size_of s. 0 \<le> sint (min_array_of k e s ! i)"
  shows "min_score_adj_of k e s = OOM_SCORE_ADJ_MAX k + 1"
proof -
  have "crossed_index k e s = None"
    unfolding crossed_index_None using assms crossed_negative by blast
  then show ?thesis by (simp add: min_score_adj_of_def)
qed

text \<open>During a boost window the entries that are compared are the sums.\<close>

lemma fold_update_nth:
  "j < n \<Longrightarrow> n \<le> length tmp \<Longrightarrow> fold (\<lambda>i t. t[i := f i]) [0 ..< n] tmp ! j = f j"
proof (induction n arbitrary: j)
  case 0
  then show ?case by simp
next
  case (Suc n)
  have len: "length (fold (\<lambda>i t. t[i := f i]) [0 ..< n] tmp) = length tmp"
    by (induction n) simp_all
  show ?case
  proof (cases "j = n")
    case True
    with Suc.prems len show ?thesis by simp
  next
    case False
    with Suc.prems have "j < n" by simp
    with Suc.IH[of j] Suc.prems False show ?thesis by simp
  qed
qed

lemma min_array_of_nth:
  assumes "i < nat (lowmem_minfree_size s)" "nat (lowmem_minfree_size s) \<le> length (minfree_tmp s)"
  shows "min_array_of k e s ! i =
          (if boosted k e s then lowmem_minfree s ! i + lowmem_fork_boost_minfree s ! i
           else lowmem_minfree s ! i)"
  using fold_update_nth[OF assms, of "\<lambda>i. lowmem_minfree s ! i + lowmem_fork_boost_minfree s ! i"]
  by (simp add: min_array_of_def fill_minfree_tmp_def)

text \<open>None of this reads \<open>scan_mutex\<close>.\<close>

lemma fill_minfree_tmp_mutex [simp]:
  "fill_minfree_tmp (s\<lparr>scan_mutex := b\<rparr>) = fill_minfree_tmp s"
  by (simp add: fill_minfree_tmp_def)

lemma array_size_of_mutex [simp]: "array_size_of (s\<lparr>scan_mutex := b\<rparr>) = array_size_of s"
  by (simp add: array_size_of_def Let_def)

lemma boosted_mutex [simp]: "boosted k e (s\<lparr>scan_mutex := b\<rparr>) = boosted k e s"
  by (simp add: boosted_def)

lemma min_array_of_mutex [simp]:
  "min_array_of k e (s\<lparr>scan_mutex := b\<rparr>) = min_array_of k e s"
  by (simp add: min_array_of_def)

lemma crossed_index_mutex [simp]:
  "crossed_index k e (s\<lparr>scan_mutex := b\<rparr>) = crossed_index k e s"
  by (simp add: crossed_index_def)

lemma min_score_adj_of_mutex [simp]:
  "min_score_adj_of k e (s\<lparr>scan_mutex := b\<rparr>) = min_score_adj_of k e s"
  by (simp add: min_score_adj_of_def split: option.splits)

lemma boost_minfree_mutex:
  "boost_minfree k e (s\<lparr>scan_mutex := b\<rparr>) = (boost_minfree k e s)\<lparr>scan_mutex := b\<rparr>"
  by (simp add: boost_minfree_def)

lemma boost_minfree_fields [simp]:
  "lmk_running (boost_minfree k e s) = lmk_running s"
  "scan_mutex (boost_minfree k e s) = scan_mutex s"
  "lmk_count (boost_minfree k e s) = lmk_count s"
  "lowmem_deathpending_timeout (boost_minfree k e s) = lowmem_deathpending_timeout s"
  by (simp_all add: boost_minfree_def)

text \<open>
  Claim C1: the lookup returns the cutoff of the first entry whose effective
  threshold is above both \<open>free_pages - reserved_free\<close> and \<open>file_pages\<close>, and the
  no-pressure result otherwise. The code compares both quantities with a
  \<open>size_t\<close>, hence as unsigned numbers. With the default tables, 1000 free
  pages, a normal zone that reserves 1280 and 1000 file pages, the free-memory
  deficit is \<open>-280\<close> and the file count 1000, both below the first threshold
  1536; the code finds no entry crossed, returns \<open>rem\<close> and signals nobody,
  although a process with oom_score_adj 5 is there to be killed.
\<close>

theorem negative_deficit_crosses_nothing:
  "sint (other_free_of (sample_env\<lparr>nr_free_pages := 1000, nr_file_pages := 1000,
            zones := [\<lparr>is_normal = True, watermark_min = 1024, lowmem_reserve = 256\<rparr>]\<rparr>)
         - reserved_free_of [\<lparr>is_normal = True, watermark_min = 1024, lowmem_reserve = 256\<rparr>])
     = - 280 \<and>
   min_score_adj_of linux_kernel
     (sample_env\<lparr>nr_free_pages := 1000, nr_file_pages := 1000,
        zones := [\<lparr>is_normal = True, watermark_min = 1024, lowmem_reserve = 256\<rparr>],
        tasks := [candidate 1 5 100]\<rparr>)
     (initial_state linux_kernel) = OOM_SCORE_ADJ_MAX linux_kernel + 1 \<and>
   lowmem_shrink linux_kernel
     (sample_env\<lparr>nr_free_pages := 1000, nr_file_pages := 1000,
        zones := [\<lparr>is_normal = True, watermark_min = 1024, lowmem_reserve = 256\<rparr>],
        tasks := [candidate 1 5 100]\<rparr>)
     (initial_state linux_kernel) = (100, initial_state linux_kernel, [])"
proof -
  let ?e = "sample_env\<lparr>nr_free_pages := 1000, nr_file_pages := 1000,
        zones := [\<lparr>is_normal = True, watermark_min = 1024, lowmem_reserve = 256\<rparr>],
        tasks := [candidate 1 5 100]\<rparr>"
  have m: "min_score_adj_of linux_kernel ?e (initial_state linux_kernel)
             = OOM_SCORE_ADJ_MAX linux_kernel + 1"
    by (simp add: lookup_defs initial_state_def sample_env_def linux_kernel_def upt_rec)
  have b: "boost_minfree linux_kernel ?e (initial_state linux_kernel) = initial_state linux_kernel"
    by (simp add: boost_minfree_def boosted_def initial_state_def)
  have r: "rem_of ?e = 100" by (simp add: rem_of_def sample_env_def)
  have n: "0 < nr_to_scan ?e" "\<not> scan_mutex (initial_state linux_kernel)"
    by (simp_all add: sample_env_def initial_state_def)
  have "lowmem_shrink linux_kernel ?e (initial_state linux_kernel)
          = (100, initial_state linux_kernel, [])"
    using m b r n by (simp add: lowmem_shrink_def Let_def boost_minfree_mutex)
  moreover have "sint (other_free_of (sample_env\<lparr>nr_free_pages := 1000, nr_file_pages := 1000,
            zones := [\<lparr>is_normal = True, watermark_min = 1024, lowmem_reserve = 256\<rparr>]\<rparr>)
         - reserved_free_of [\<lparr>is_normal = True, watermark_min = 1024, lowmem_reserve = 256\<rparr>])
     = - 280"
    by (simp add: other_free_of_def sample_env_def)
  ultimately show ?thesis using m by simp
qed

text \<open>
  Claim C4, as the code decides it: for the table
  \<open>[(0,1536),(1,2048),(6,4096),(12,16384)]\<close> (the driver's default), 1800 free
  pages, 500 file pages, \<open>reserved_free = 0\<close> and no boost, the lookup returns
  cutoff 1. Entry 0 is not crossed, since 1800 is not below 1536; entry 1 is the
  first with both readings below its threshold.
\<close>

theorem default_table_lookup_is_one:
  "min_score_adj_of k sample_env (initial_state k) = 1"
  by (simp add: lookup_defs initial_state_def sample_env_def upt_rec)

text \<open>Claim C4 as stated, cutoff 0 for that table and reading, does not hold.\<close>

theorem default_table_lookup_not_zero:
  "lowmem_adj (initial_state linux_kernel) = [0, 1, 6, 12, 0, 0] \<and>
   lowmem_minfree (initial_state linux_kernel) = [1536, 2048, 4096, 16384, 0, 0] \<and>
   other_free_of sample_env = 1800 \<and> other_file_of sample_env = 500 \<and>
   reserved_free_of (zones sample_env) = 0 \<and>
   \<not> boosted linux_kernel sample_env (initial_state linux_kernel) \<and>
   min_score_adj_of linux_kernel sample_env (initial_state linux_kernel) \<noteq> 0"
  by (simp add: lookup_defs initial_state_def sample_env_def upt_rec)

text \<open>
  Claim C5, as the code decides it: the comparisons of line 284 are strict. An
  entry whose threshold, as compared, equals \<open>free_pages - reserved_free\<close> or
  equals \<open>file_pages\<close> is not crossed by that reading, and the lookup does not
  select it.
\<close>

theorem threshold_equal_not_crossed:
  "other_free_of e - reserved_free_of (zones e) = min_array_of k e s ! i \<or>
   other_file_of e = min_array_of k e s ! i \<Longrightarrow>
   crossed_index k e s \<noteq> Some i"
  by (auto dest!: crossed_index_SomeD simp: crossed_def)

text \<open>With both readings at 1536, the threshold of entry 0 of the default table,
  the lookup passes entry 0 over and selects entry 1.\<close>

theorem threshold_equal_not_crossed_witness:
  "other_free_of (sample_env\<lparr>nr_free_pages := 1536, nr_file_pages := 1536\<rparr>)
     - reserved_free_of (zones (sample_env\<lparr>nr_free_pages := 1536, nr_file_pages := 1536\<rparr>))
     = min_array_of linux_kernel (sample_env\<lparr>nr_free_pages := 1536, nr_file_pages := 1536\<rparr>)
         (initial_state linux_kernel) ! 0 \<and>
   crossed_index linux_kernel (sample_env\<lparr>nr_free_pages := 1536, nr_file_pages := 1536\<rparr>)
     (initial_state linux_kernel) \<noteq> Some 0"
  using threshold_equal_not_crossed
    [of "sample_env\<lparr>nr_free_pages := 1536, nr_file_pages := 1536\<rparr>"
        linux_kernel "initial_state linux_kernel" 0]
  by (simp add: lookup_defs initial_state_def sample_env_def)

text \<open>Claim C5 as stated, that a reading equal to the threshold crosses the entry,
  fails there: entry 0 has threshold 1536, both readings are 1536, and the lookup
  returns the cutoff of entry 1.\<close>

theorem boundary_reading_selects_next_entry:
  "min_array_of linux_kernel (sample_env\<lparr>nr_free_pages := 1536, nr_file_pages := 1536\<rparr>)
     (initial_state linux_kernel) ! 0 = 1536 \<and>
   other_free_of (sample_env\<lparr>nr_free_pages := 1536, nr_file_pages := 1536\<rparr>)
     - reserved_free_of (zones (sample_env\<lparr>nr_free_pages := 1536, nr_file_pages := 1536\<rparr>))
     = 1536 \<and>
   other_file_of (sample_env\<lparr>nr_free_pages := 1536, nr_file_pages := 1536\<rparr>) = 1536 \<and>
   crossed_index linux_kernel (sample_env\<lparr>nr_free_pages := 1536, nr_file_pages := 1536\<rparr>)
     (initial_state linux_kernel) = Some 1 \<and>
   min_score_adj_of linux_kernel (sample_env\<lparr>nr_free_pages := 1536, nr_file_pages := 1536\<rparr>)
     (initial_state linux_kernel) = 1"
  by (simp add: lookup_defs initial_state_def sample_env_def upt_rec)

section \<open>The paths through \<open>lowmem_shrink\<close>\<close>

text \<open>Line 248: the lock is taken by someone else.\<close>

lemma lowmem_shrink_contended:
  "0 < nr_to_scan e \<Longrightarrow> scan_mutex s \<Longrightarrow> lowmem_shrink k e s = (0, s, maybe_sleep e)"
  by (simp add: lowmem_shrink_def)

text \<open>Line 307, reached with \<open>nr_to_scan = 0\<close> or with no entry crossed.\<close>

lemma lowmem_shrink_query:
  "nr_to_scan e = 0 \<Longrightarrow> lowmem_shrink k e s = (rem_of e, boost_minfree k e s, [])"
  by (simp add: lowmem_shrink_def Let_def)

lemma lowmem_shrink_no_pressure:
  "0 < nr_to_scan e \<Longrightarrow> \<not> scan_mutex s \<Longrightarrow>
   min_score_adj_of k e s = OOM_SCORE_ADJ_MAX k + 1 \<Longrightarrow>
   lowmem_shrink k e s = (rem_of e, boost_minfree k e s, [])"
  by (simp add: lowmem_shrink_def Let_def boost_minfree_mutex)

text \<open>Past line 308: the process loop runs, and the call leaves at line 345 or
  at line 470.\<close>

lemma lowmem_shrink_scan:
  assumes "0 < nr_to_scan e" "\<not> scan_mutex s"
    "min_score_adj_of k e s \<noteq> OOM_SCORE_ADJ_MAX k + 1"
  shows "lowmem_shrink k e s =
    (case scan_tasks (time_before_eq k (jiffies e) (lowmem_deathpending_timeout s))
            (min_score_adj_of k e s) (tasks e) (empty_pool (min_score_adj_of k e s)) of
       None \<Rightarrow> (0, (boost_minfree k e s)\<lparr>lmk_running := 0, scan_mutex := False\<rparr>,
                [Set_lmk_running 1, Set_lmk_running 0] @ maybe_sleep e)
     | Some pl \<Rightarrow>
         (case kill_selected k e pl
                 (rem_of e, (boost_minfree k e s)\<lparr>scan_mutex := True, lmk_running := 1\<rparr>,
                  [Set_lmk_running 1]) of
            (rem, s', evs) \<Rightarrow>
              (rem, s'\<lparr>lmk_running := 0, scan_mutex := False\<rparr>, evs @ [Set_lmk_running 0])))"
proof -
  have nz: "nr_to_scan e \<noteq> 0" using assms(1) by auto
  show ?thesis
    using assms nz
    by (simp add: lowmem_shrink_def Let_def boost_minfree_mutex split: option.splits)
qed

lemma lowmem_shrink_cases:
  obtains (contended) "0 < nr_to_scan e" "scan_mutex s"
  | (query) "nr_to_scan e = 0"
  | (no_pressure) "0 < nr_to_scan e" "\<not> scan_mutex s"
      "min_score_adj_of k e s = OOM_SCORE_ADJ_MAX k + 1"
  | (scan) "0 < nr_to_scan e" "\<not> scan_mutex s"
      "min_score_adj_of k e s \<noteq> OOM_SCORE_ADJ_MAX k + 1"
  by (cases "nr_to_scan e = 0") (auto simp: word_gt_0)

text \<open>
  Claim C6: a call with \<open>nr_to_scan > 0\<close> that finds the scan lock held returns 0,
  signals no process and leaves the driver state as it was; it does nothing
  but sleep once for \<open>lowmem_sleep_ms\<close> (one millisecond) when the caller is
  kswapd, the only caller \<open>lowmem_only_kswapd_sleep\<close> lets sleep.
\<close>

theorem contended_scan_returns_zero:
  "0 < nr_to_scan e \<Longrightarrow> scan_mutex s \<Longrightarrow>
   lowmem_shrink k e s =
     (0, s, if current_is_kswapd e then [Msleep lowmem_sleep_ms] else [])"
  by (simp add: lowmem_shrink_contended maybe_sleep_def lowmem_only_kswapd_sleep_def)

text \<open>kswapd asks for one page while another scan holds the lock.\<close>

theorem contended_scan_returns_zero_witness:
  "0 < nr_to_scan (sample_env\<lparr>current_is_kswapd := True\<rparr>) \<and>
   scan_mutex ((initial_state linux_kernel)\<lparr>scan_mutex := True\<rparr>) \<and>
   lowmem_shrink linux_kernel (sample_env\<lparr>current_is_kswapd := True\<rparr>)
     ((initial_state linux_kernel)\<lparr>scan_mutex := True\<rparr>) =
     (0, (initial_state linux_kernel)\<lparr>scan_mutex := True\<rparr>, [Msleep 1])"
  using contended_scan_returns_zero
    [of "sample_env\<lparr>current_is_kswapd := True\<rparr>"
        "(initial_state linux_kernel)\<lparr>scan_mutex := True\<rparr>" linux_kernel]
  by (simp add: sample_env_def lowmem_sleep_ms_def)

text \<open>
  Claim C9, as the code decides it: a call with \<open>nr_to_scan = 0\<close>, or a call with
  \<open>nr_to_scan > 0\<close> that gets the scan lock and finds no threshold crossed, signals
  no process and returns the sum of the active-anon, active-file, inactive-anon
  and inactive-file counters (as the 32-bit \<open>int rem\<close> holds it).
\<close>

theorem query_or_no_pressure_returns_rem:
  "nr_to_scan e = 0 \<or>
   (\<not> scan_mutex s \<and> min_score_adj_of k e s = OOM_SCORE_ADJ_MAX k + 1) \<Longrightarrow>
   fst (lowmem_shrink k e s) =
     nr_active_anon e + nr_active_file e + nr_inactive_anon e + nr_inactive_file e \<and>
   snd (snd (lowmem_shrink k e s)) = []"
  by (cases rule: lowmem_shrink_cases[where e = e and s = s and k = k])
     (auto simp: lowmem_shrink_query lowmem_shrink_no_pressure rem_of_def)

text \<open>A query (\<open>nr_to_scan = 0\<close>) while memory is short, and a scan that gets the
  lock and finds 20000 free and 20000 file pages, above every threshold of the
  default table: each returns 100, the sum of the four counters.\<close>

theorem query_or_no_pressure_returns_rem_witness:
  "nr_to_scan (sample_env\<lparr>nr_to_scan := 0\<rparr>) = 0 \<and>
   fst (lowmem_shrink linux_kernel (sample_env\<lparr>nr_to_scan := 0\<rparr>) (initial_state linux_kernel))
     = 100 \<and>
   snd (snd (lowmem_shrink linux_kernel (sample_env\<lparr>nr_to_scan := 0\<rparr>)
     (initial_state linux_kernel))) = [] \<and>
   nr_to_scan (sample_env\<lparr>nr_free_pages := 20000, nr_file_pages := 20000\<rparr>) = 1 \<and>
   \<not> scan_mutex (initial_state linux_kernel) \<and>
   min_score_adj_of linux_kernel (sample_env\<lparr>nr_free_pages := 20000, nr_file_pages := 20000\<rparr>)
     (initial_state linux_kernel) = OOM_SCORE_ADJ_MAX linux_kernel + 1 \<and>
   fst (lowmem_shrink linux_kernel (sample_env\<lparr>nr_free_pages := 20000, nr_file_pages := 20000\<rparr>)
     (initial_state linux_kernel)) = 100 \<and>
   snd (snd (lowmem_shrink linux_kernel (sample_env\<lparr>nr_free_pages := 20000, nr_file_pages := 20000\<rparr>)
     (initial_state linux_kernel))) = []"
proof -
  have m: "min_score_adj_of linux_kernel (sample_env\<lparr>nr_free_pages := 20000, nr_file_pages := 20000\<rparr>)
     (initial_state linux_kernel) = OOM_SCORE_ADJ_MAX linux_kernel + 1"
    by (simp add: lookup_defs initial_state_def sample_env_def linux_kernel_def upt_rec)
  have f: "\<not> scan_mutex (initial_state linux_kernel)" by (simp add: initial_state_def)
  show ?thesis
    using query_or_no_pressure_returns_rem
      [of "sample_env\<lparr>nr_to_scan := 0\<rparr>" "initial_state linux_kernel" linux_kernel]
      query_or_no_pressure_returns_rem
      [of "sample_env\<lparr>nr_free_pages := 20000, nr_file_pages := 20000\<rparr>"
          "initial_state linux_kernel" linux_kernel]
      m f
    by (simp add: sample_env_def)
qed

text \<open>Claim C9 as stated fails when the lock is held: with 20000 free and 20000
  file pages no threshold of the default table is crossed, the counters add up
  to 100, and the call returns 0.\<close>

theorem contended_no_pressure_returns_zero:
  "min_score_adj_of linux_kernel (sample_env\<lparr>nr_free_pages := 20000, nr_file_pages := 20000\<rparr>)
     ((initial_state linux_kernel)\<lparr>scan_mutex := True\<rparr>) = OOM_SCORE_ADJ_MAX linux_kernel + 1 \<and>
   nr_active_anon sample_env + nr_active_file sample_env + nr_inactive_anon sample_env
     + nr_inactive_file sample_env = 100 \<and>
   fst (lowmem_shrink linux_kernel (sample_env\<lparr>nr_free_pages := 20000, nr_file_pages := 20000\<rparr>)
     ((initial_state linux_kernel)\<lparr>scan_mutex := True\<rparr>)) = 0"
proof -
  have "min_score_adj_of linux_kernel (sample_env\<lparr>nr_free_pages := 20000, nr_file_pages := 20000\<rparr>)
     (initial_state linux_kernel) = OOM_SCORE_ADJ_MAX linux_kernel + 1"
    by (simp add: lookup_defs initial_state_def sample_env_def linux_kernel_def upt_rec)
  moreover have "fst (lowmem_shrink linux_kernel
     (sample_env\<lparr>nr_free_pages := 20000, nr_file_pages := 20000\<rparr>)
     ((initial_state linux_kernel)\<lparr>scan_mutex := True\<rparr>)) = 0"
    by (simp add: lowmem_shrink_contended sample_env_def)
  ultimately show ?thesis by (simp add: sample_env_def)
qed

section \<open>The candidate pool keeps the three highest-ranked candidates\<close>

subsection \<open>Three highest elements of a multiset\<close>

lemma top_inv_empty: "top_inv {#} {#}"
  by (simp add: top_inv_def)

lemma top_inv_full: "top_inv P M \<Longrightarrow> size P < 3 \<Longrightarrow> P = M"
proof (rule ccontr)
  assume a: "top_inv P M" "size P < 3" and ne: "P \<noteq> M"
  then have "P \<subset># M" by (simp add: top_inv_def subset_mset.less_le)
  then have "size P < size M" by (rule mset_subset_size)
  with a show False by (simp add: top_inv_def)
qed

lemma top_inv_add: "top_inv P M \<Longrightarrow> size P < 3 \<Longrightarrow> top_inv (add_mset c P) (add_mset c M)"
  using top_inv_full[of P M] by (auto simp: top_inv_def)

lemma diff_single_sub:
  assumes "w \<in># P" "P \<subseteq># M"
  shows "M - (P - {#w#}) = add_mset w (M - P)"
proof (rule multiset_eqI)
  fix a
  have le: "count P a \<le> count M a" using assms(2) by (rule mset_subset_eq_count)
  have "1 \<le> count P w" using assms(1) by (simp add: Suc_le_eq)
  with le show "count (M - (P - {#w#})) a = count (add_mset w (M - P)) a"
    by (cases "a = w") auto
qed

lemma sub_add_mset: "A \<subseteq># B \<Longrightarrow> A \<subseteq># add_mset c B"
  by (auto simp: subseteq_mset_def intro: le_SucI)

lemma sub_replace_mset: "A \<subseteq># B \<Longrightarrow> add_mset c (A - {#x#}) \<subseteq># add_mset c B"
  by (meson diff_subset_eq_self mset_subset_eq_add_mset_cancel subset_mset.order_trans)

lemma top_inv_replace:
  assumes "top_inv P M" "size P = 3" "w \<in># P" "\<forall>x\<in>#P. w \<le> x" "w < c"
  shows "top_inv (add_mset c (P - {#w#})) (add_mset c M)"
proof -
  from assms have sub: "P \<subseteq># M" and sz: "3 \<le> size M" and dom: "\<forall>x\<in>#P. \<forall>y\<in>#M - P. y \<le> x"
    by (auto simp: top_inv_def)
  have 1: "add_mset c (P - {#w#}) \<subseteq># add_mset c M"
    using sub by (meson diff_subset_eq_self mset_subset_eq_add_mset_cancel subset_mset.order_trans)
  have 2: "size (add_mset c (P - {#w#})) = min 3 (size (add_mset c M))"
    using assms(2,3) sz by (simp add: size_Diff_singleton)
  have 3: "add_mset c M - add_mset c (P - {#w#}) = add_mset w (M - P)"
    using diff_single_sub[OF assms(3) sub] by simp
  have 4: "\<forall>x\<in>#add_mset c (P - {#w#}). \<forall>y\<in>#add_mset w (M - P). y \<le> x"
  proof (intro ballI)
    fix x y assume x: "x \<in># add_mset c (P - {#w#})" and y: "y \<in># add_mset w (M - P)"
    from y have yw: "y \<le> w" using dom assms(3) by auto
    from x have "x = c \<or> x \<in># P" by (auto dest: in_diffD)
    then show "y \<le> x" using yw assms(4,5) by auto
  qed
  show ?thesis unfolding top_inv_def using 1 2 3 4 by simp
qed

lemma top_inv_reject:
  assumes "top_inv P M" "size P = 3" "w \<in># P" "\<forall>x\<in>#P. w \<le> x" "c \<le> w"
  shows "top_inv P (add_mset c M)"
proof -
  from assms have sub: "P \<subseteq># M" and sz: "3 \<le> size M" and dom: "\<forall>x\<in>#P. \<forall>y\<in>#M - P. y \<le> x"
    by (auto simp: top_inv_def)
  have 3: "add_mset c M - P = add_mset c (M - P)"
    using sub by (metis add_diff_cancel_left' subset_mset.add_diff_inverse
    union_mset_add_mset_right)
  show ?thesis unfolding top_inv_def using sub sz assms 3 dom
    by (auto intro: subset_mset.order_trans)
qed

lemma top_unique:
  "sorted_wrt (\<lambda>a b. b \<le> a) (L :: ('a::linorder) list) \<Longrightarrow> P \<subseteq># mset L \<Longrightarrow> size P = min k (length L) \<Longrightarrow>
   (\<forall>x\<in>#P. \<forall>y\<in>#mset L - P. y \<le> x) \<Longrightarrow> P = mset (take k L)"
proof (induction L arbitrary: P k)
  case Nil
  then show ?case by simp
next
  case (Cons a L)
  show ?case
  proof (cases k)
    case 0
    with Cons.prems show ?thesis by simp
  next
    case (Suc k')
    have ne: "P \<noteq> {#}" using Cons.prems(3) Suc by auto
    have amax: "\<forall>x\<in>#P. x \<le> a" using Cons.prems(1,2) by (auto dest!: mset_subset_eqD)
    have aP: "a \<in># P"
    proof (rule ccontr)
      assume "a \<notin># P"
      then have "a \<in># mset (a # L) - P"
        by (simp add: in_diff_count not_in_iff)
      then have "\<forall>x\<in>#P. a \<le> x" using Cons.prems(4) by auto
      with amax have "\<forall>x\<in>#P. x = a" by (meson order_antisym)
      with ne \<open>a \<notin># P\<close> show False by (metis multiset_nonemptyE)
    qed
    define P' where "P' = P - {#a#}"
    have P: "P = add_mset a P'" using aP by (simp add: P'_def)
    have "P' = mset (take k' L)"
    proof (rule Cons.IH)
      show "sorted_wrt (\<lambda>a b. b \<le> a) L" using Cons.prems(1) by simp
      show "P' \<subseteq># mset L" using Cons.prems(2) P by simp
      show "size P' = min k' (length L)" using Cons.prems(3) P Suc by simp
      show "\<forall>x\<in>#P'. \<forall>y\<in>#mset L - P'. y \<le> x" using Cons.prems(4) P by simp
    qed
    then show ?thesis using P Suc by simp
  qed
qed

subsection \<open>The search for the weakest slot\<close>

lemma weakest_step_alt:
  "weakest_step i pl =
     (if slot_rank pl i < slot_rank pl (max_selected_oom_idx pl)
      then pl\<lparr>max_selected_oom_idx := i\<rparr> else pl)"
  by (auto simp: weakest_step_def slot_rank_def Let_def less_prod_def)

lemma slot_rank_idx [simp]: "slot_rank (pl\<lparr>max_selected_oom_idx := i\<rparr>) = slot_rank pl"
  by (simp add: slot_rank_def fun_eq_iff)

lemma fold_weakest_step:
  "\<exists>m'. fold weakest_step [0 ..< n] pl = pl\<lparr>max_selected_oom_idx := m'\<rparr> \<and>
        (m' = max_selected_oom_idx pl \<or> m' < n) \<and>
        slot_rank pl m' \<le> slot_rank pl (max_selected_oom_idx pl) \<and>
        (\<forall>i<n. slot_rank pl m' \<le> slot_rank pl i)"
proof (induction n)
  case 0
  show ?case by simp
next
  case (Suc n)
  then obtain m where m: "fold weakest_step [0 ..< n] pl = pl\<lparr>max_selected_oom_idx := m\<rparr>"
    "m = max_selected_oom_idx pl \<or> m < n"
    "slot_rank pl m \<le> slot_rank pl (max_selected_oom_idx pl)"
    "\<forall>i<n. slot_rank pl m \<le> slot_rank pl i" by blast
  show ?case
  proof (cases "slot_rank pl n < slot_rank pl m")
    case True
    have "fold weakest_step [0 ..< Suc n] pl = pl\<lparr>max_selected_oom_idx := n\<rparr>"
      using m(1) True by (simp add: weakest_step_alt)
    moreover have "\<forall>i<Suc n. slot_rank pl n \<le> slot_rank pl i"
      using m(4) True by (auto simp: less_Suc_eq)
    moreover have "slot_rank pl n \<le> slot_rank pl (max_selected_oom_idx pl)"
      using m(3) True by auto
    ultimately show ?thesis by blast
  next
    case False
    have "fold weakest_step [0 ..< Suc n] pl = pl\<lparr>max_selected_oom_idx := m\<rparr>"
      using m(1) False by (simp add: weakest_step_alt)
    moreover have "\<forall>i<Suc n. slot_rank pl m \<le> slot_rank pl i"
      using m(4) False by (auto simp: less_Suc_eq)
    ultimately show ?thesis using m(2,3) by (metis less_Suc_eq)
  qed
qed

lemma find_weakest_min:
  assumes "max_selected_oom_idx pl < 3"
  shows "\<exists>m'. find_weakest pl = pl\<lparr>max_selected_oom_idx := m'\<rparr> \<and> m' < 3 \<and>
          (\<forall>i<3. slot_rank pl m' \<le> slot_rank pl i)"
  using fold_weakest_step[of 3 pl] assms
  unfolding find_weakest_def LOWMEM_DEATHPENDING_DEPTH_def by auto

lemma first_empty_slot:
  assumes "length ts < 3"
  shows "find (\<lambda>i. (map Some ts @ replicate (3 - length ts) None) ! i = None) [0 ..< 3] = Some (length ts)"
  unfolding find_Some_iff using assms
  by (intro exI[of _ "length ts"]) (auto simp: nth_append)

lemma fill_slot:
  assumes "length ts < 3"
  shows "(map Some ts @ replicate (3 - length ts) None)[length ts := Some c]
           = map Some (ts @ [c]) @ replicate (3 - length (ts @ [c])) None"
proof -
  have "replicate (3 - length ts) None = (None :: 'a option) # replicate (2 - length ts) None"
    using assms by (cases "3 - length ts") auto
  then show ?thesis using assms by (simp add: list_update_append)
qed

subsection \<open>Offering a candidate keeps the invariant\<close>

lemma pool_inv_empty: "pool_inv (empty_pool m) []"
  unfolding pool_inv_def
  by (intro exI[of _ "[]"]) (simp add: empty_pool_def LOWMEM_DEATHPENDING_DEPTH_def top_inv_empty)

lemma is_exist_fill:
  assumes "selected pl = map Some ts @ replicate (3 - length ts) None"
    "length ts = all_selected_oom pl" "length ts < 3"
  shows "is_exist_oom_task adj tasksize pl = (True, pl\<lparr>max_selected_oom_idx := length ts\<rparr>)"
  using assms first_empty_slot[of ts]
  by (simp add: is_exist_oom_task_def LOWMEM_DEATHPENDING_DEPTH_def)

lemma is_exist_full:
  assumes "all_selected_oom pl = 3"
  shows "is_exist_oom_task adj tasksize pl =
          (slot_rank pl (max_selected_oom_idx pl) < (adj, tasksize), pl)"
  using assms
  by (auto simp: is_exist_oom_task_def LOWMEM_DEATHPENDING_DEPTH_def slot_rank_def less_prod_def)

lemma pool_offer_fill:
  assumes inv: "pool_inv pl ds" and n: "all_selected_oom pl < 3" and r: "rank c = (adj, tasksize)"
  shows "pool_inv (pool_offer c adj tasksize pl) (ds @ [c])"
proof -
  from inv obtain ts where ts: "length ts = all_selected_oom pl"
    "selected pl = map Some ts @ replicate (3 - length ts) None"
    "length (selected_oom_score_adj pl) = 3" "length (selected_tasksize pl) = 3"
    "\<forall>i<length ts. rank (ts ! i) = slot_rank pl i"
    "mset ts \<subseteq># mset ds"
    "top_inv (mset (map rank ts)) (mset (map rank ds))"
    unfolding pool_inv_def by blast
  define n where "n = length ts"
  have n3: "n < 3" using n ts(1) by (simp add: n_def)
  have an: "all_selected_oom pl = n" using ts(1) by (simp add: n_def)
  define pl1 where "pl1 = pl\<lparr>max_selected_oom_idx := n,
      selected := (selected pl)[n := Some c],
      selected_tasksize := (selected_tasksize pl)[n := tasksize],
      selected_oom_score_adj := (selected_oom_score_adj pl)[n := adj],
      all_selected_oom := n + 1\<rparr>"
  have ie: "is_exist_oom_task adj tasksize pl = (True, pl\<lparr>max_selected_oom_idx := n\<rparr>)"
    using is_exist_fill[OF ts(2) ts(1), of adj tasksize] n3 by (simp add: n_def)
  have offer: "pool_offer c adj tasksize pl = (if n + 1 = 3 then find_weakest pl1 else pl1)"
    using n3 by (simp add: pool_offer_def ie store_candidate_def an pl1_def
        LOWMEM_DEATHPENDING_DEPTH_def Let_def)
  have sel: "selected pl1 = map Some (ts @ [c]) @ replicate (3 - length (ts @ [c])) None"
    using fill_slot[of ts c] n3 by (simp add: pl1_def ts(2) n_def)
  have ranks: "\<forall>i<length (ts @ [c]). rank ((ts @ [c]) ! i) = slot_rank pl1 i"
    using ts(3,4,5) r n3 by (auto simp: slot_rank_def pl1_def n_def nth_append less_Suc_eq)
  have top: "top_inv (mset (map rank (ts @ [c]))) (mset (map rank (ds @ [c])))"
    using top_inv_add[OF ts(7), of "rank c"] n3 by (simp add: n_def)
  have sub: "mset (ts @ [c]) \<subseteq># mset (ds @ [c])" using ts(6) by simp
  have len: "length (ts @ [c]) = all_selected_oom pl1" "length (ts @ [c]) \<le> 3"
    "length (selected_oom_score_adj pl1) = 3" "length (selected_tasksize pl1) = 3"
    using n3 ts(3,4) by (simp_all add: pl1_def n_def)
  show ?thesis
  proof (cases "n + 1 = 3")
    case False
    then have "length (ts @ [c]) \<noteq> 3" by (simp add: n_def)
    then have "pool_inv pl1 (ds @ [c])"
      unfolding pool_inv_def using ranks top sub sel len
      by (intro exI[of _ "ts @ [c]"]) blast
    with False offer show ?thesis by simp
  next
    case True
    have "max_selected_oom_idx pl1 < 3" using n3 by (simp add: pl1_def)
    from find_weakest_min[OF this] obtain m' where m':
      "find_weakest pl1 = pl1\<lparr>max_selected_oom_idx := m'\<rparr>" "m' < 3"
      "\<forall>i<3. slot_rank pl1 m' \<le> slot_rank pl1 i" by blast
    have "pool_inv (pl1\<lparr>max_selected_oom_idx := m'\<rparr>) (ds @ [c])"
      unfolding pool_inv_def using ranks top sub sel len m'(2,3)
      by (intro exI[of _ "ts @ [c]"]) simp
    with True offer m'(1) show ?thesis by simp
  qed
qed

lemma pool_offer_full:
  assumes inv: "pool_inv pl ds" and n: "all_selected_oom pl = 3" and r: "rank c = (adj, tasksize)"
  shows "pool_inv (pool_offer c adj tasksize pl) (ds @ [c])"
proof -
  from inv n obtain ts where ts: "length ts = 3"
    "selected pl = map Some ts"
    "length (selected_oom_score_adj pl) = 3" "length (selected_tasksize pl) = 3"
    "\<forall>i<3. rank (ts ! i) = slot_rank pl i"
    "mset ts \<subseteq># mset ds"
    "top_inv (mset (map rank ts)) (mset (map rank ds))"
    "max_selected_oom_idx pl < 3"
    "\<forall>i<3. slot_rank pl (max_selected_oom_idx pl) \<le> slot_rank pl i"
    unfolding pool_inv_def by auto
  define m where "m = max_selected_oom_idx pl"
  have m3: "m < 3" using ts(8) by (simp add: m_def)
  define w where "w = rank (ts ! m)"
  have w: "w = slot_rank pl m" using ts(5) m3 by (simp add: w_def)
  have wP: "w \<in># mset (map rank ts)" using m3 ts(1) by (auto simp: w_def)
  have wmin: "\<forall>x\<in>#mset (map rank ts). w \<le> x"
    using ts(1,5,9) w by (auto simp: in_set_conv_nth m_def)
  have sz: "size (mset (map rank ts)) = 3" using ts(1) by simp
  show ?thesis
  proof (cases "w < (adj, tasksize)")
    case False
    then have "pool_offer c adj tasksize pl = pl"
      using is_exist_full[OF n, of adj tasksize] w by (simp add: pool_offer_def m_def)
    moreover have "top_inv (mset (map rank ts)) (mset (map rank (ds @ [c])))"
      using top_inv_reject[OF ts(7) sz wP wmin, of "rank c"] False r by simp
    moreover have "mset ts \<subseteq># mset (ds @ [c])"
      using ts(6) by (simp add: sub_add_mset)
    ultimately show ?thesis
      unfolding pool_inv_def using ts n
      by (intro exI[of _ ts]) simp
  next
    case True
    define ts' where "ts' = ts[m := c]"
    define pl1 where "pl1 = pl\<lparr>selected := map Some ts',
      selected_tasksize := (selected_tasksize pl)[m := tasksize],
      selected_oom_score_adj := (selected_oom_score_adj pl)[m := adj]\<rparr>"
    have offer: "pool_offer c adj tasksize pl = find_weakest pl1"
      using is_exist_full[OF n, of adj tasksize] w True n
      by (simp add: pool_offer_def store_candidate_def m_def pl1_def ts'_def
          LOWMEM_DEATHPENDING_DEPTH_def ts(2) map_update Let_def)
    have "max_selected_oom_idx pl1 < 3" using ts(8) by (simp add: pl1_def)
    from find_weakest_min[OF this] obtain m' where m':
      "find_weakest pl1 = pl1\<lparr>max_selected_oom_idx := m'\<rparr>" "m' < 3"
      "\<forall>i<3. slot_rank pl1 m' \<le> slot_rank pl1 i" by blast
    have ranks: "\<forall>i<3. rank (ts' ! i) = slot_rank pl1 i"
      using ts(1,3,4,5) r m3 by (auto simp: slot_rank_def pl1_def ts'_def nth_list_update)
    have ms: "mset ts' = add_mset c (mset ts - {#ts ! m#})"
      using m3 ts(1) by (simp add: ts'_def mset_update)
    have msr: "mset (map rank ts') = add_mset (rank c) (mset (map rank ts) - {#w#})"
      using m3 ts(1) by (simp add: ts'_def w_def map_update mset_update)
    have top: "top_inv (mset (map rank ts')) (mset (map rank (ds @ [c])))"
      using top_inv_replace[OF ts(7) sz wP wmin, of "rank c"] True r msr by simp
    have sub: "mset ts' \<subseteq># mset (ds @ [c])"
      using ts(6) ms by (simp add: sub_replace_mset)
    have "pool_inv (pl1\<lparr>max_selected_oom_idx := m'\<rparr>) (ds @ [c])"
      unfolding pool_inv_def using ranks top sub ts(1,3,4) m'(2,3) n
      by (intro exI[of _ ts']) (simp add: pl1_def ts'_def)
    with offer m'(1) show ?thesis by simp
  qed
qed

subsection \<open>The process loop\<close>

lemma non_null_map_Some [simp]: "non_null (map Some ts @ replicate k None) = ts"
  by (induction ts) (simp_all, induction k, simp_all)

lemma pool_offer_inv:
  assumes "pool_inv pl ds" "rank c = (adj, tasksize)"
  shows "pool_inv (pool_offer c adj tasksize pl) (ds @ [c])"
proof -
  from assms(1) have "all_selected_oom pl < 3 \<or> all_selected_oom pl = 3"
    by (auto simp: pool_inv_def)
  then show ?thesis using pool_offer_fill pool_offer_full assms by blast
qed

lemma scan_tasks_inv:
  "pool_inv pl ds \<Longrightarrow> \<not> (deathpending \<and> list_ex memdie_pending ts) \<Longrightarrow>
   \<exists>pl'. scan_tasks deathpending m ts pl = Some pl' \<and> pool_inv pl' (ds @ filter (eligible m) ts)"
proof (induction ts arbitrary: pl ds)
  case Nil
  then show ?case by simp
next
  case (Cons tsk ts)
  have rest: "\<not> (deathpending \<and> list_ex memdie_pending ts)" using Cons.prems(2) by auto
  have here: "\<not> (deathpending \<and> \<not> pf_kthread tsk \<and> test_task_flag (thread_memdie tsk))"
    using Cons.prems(2) by (auto simp: memdie_pending_def)
  show ?case
  proof (cases "eligible m tsk")
    case False
    then have "scan_tasks deathpending m (tsk # ts) pl = scan_tasks deathpending m ts pl"
      using here by (auto simp: eligible_def split: option.splits)
    with Cons.IH[OF Cons.prems(1) rest] False show ?thesis by simp
  next
    case True
    then obtain tasksize where t: "mm_rss tsk = Some tasksize" "0 < tasksize"
      "m \<le> oom_score_adj tsk" "\<not> pf_kthread tsk"
      by (auto simp: eligible_def split: option.splits)
    have "rank tsk = (oom_score_adj tsk, tasksize)" by (simp add: rank_def t(1))
    from pool_offer_inv[OF Cons.prems(1) this]
    have "pool_inv (pool_offer tsk (oom_score_adj tsk) tasksize pl) (ds @ [tsk])" .
    from Cons.IH[OF this rest] True t here show ?thesis by auto
  qed
qed

lemma pool_inv_top:
  assumes "pool_inv pl ds"
  shows "mset (map rank (selected_tasks pl)) = mset (take 3 (rev (sort (map rank ds))))"
    and "mset (selected_tasks pl) \<subseteq># mset ds"
proof -
  from assms obtain ts where ts: "selected pl = map Some ts @ replicate (3 - length ts) None"
    "mset ts \<subseteq># mset ds" "top_inv (mset (map rank ts)) (mset (map rank ds))"
    unfolding pool_inv_def by blast
  have st: "selected_tasks pl = ts" by (simp add: selected_tasks_def ts(1))
  show "mset (selected_tasks pl) \<subseteq># mset ds" using ts(2) st by simp
  let ?L = "rev (sort (map rank ds))"
  have "mset (map rank ts) = mset (take 3 ?L)"
  proof (rule top_unique)
    show "sorted_wrt (\<lambda>a b. b \<le> a) ?L" by (simp add: sorted_wrt_rev)
    show "mset (map rank ts) \<subseteq># mset ?L" using ts(3) by (simp add: top_inv_def)
    show "size (mset (map rank ts)) = min 3 (length ?L)" using ts(3) by (simp add: top_inv_def)
    show "\<forall>x\<in>#mset (map rank ts). \<forall>y\<in>#mset ?L - mset (map rank ts). y \<le> x"
      using ts(3) by (simp add: top_inv_def)
  qed
  then show "mset (map rank (selected_tasks pl)) = mset (take 3 (rev (sort (map rank ds))))"
    using st by simp
qed

lemma scan_top:
  assumes "\<not> (deathpending \<and> list_ex memdie_pending ts)"
  shows "\<exists>pl. scan_tasks deathpending m ts (empty_pool m) = Some pl \<and>
      mset (map rank (selected_tasks pl)) =
        mset (take LOWMEM_DEATHPENDING_DEPTH (rev (sort (map rank (filter (eligible m) ts))))) \<and>
      mset (selected_tasks pl) \<subseteq># mset (filter (eligible m) ts)"
proof -
  from scan_tasks_inv[OF pool_inv_empty assms, of m m]
  obtain pl where pl: "scan_tasks deathpending m ts (empty_pool m) = Some pl"
    "pool_inv pl (filter (eligible m) ts)" by auto
  from pool_inv_top[OF pl(2)] pl(1) show ?thesis
    by (simp add: LOWMEM_DEATHPENDING_DEPTH_def)
qed

lemma list_ex_mset: "mset xs = mset ys \<Longrightarrow> list_ex P xs = list_ex P ys"
  by (metis list_ex_iff set_mset_mset)

lemma sort_rank_perm:
  "mset xs = mset ys \<Longrightarrow> sort (map rank (filter P xs)) = sort (map rank (filter P ys))"
  by (metis mset_filter mset_map properties_for_sort sorted_sort mset_sort)

text \<open>
  Claim C2: whatever the processes and their order, when the loop is not left
  early the pool ends with three highest-ranked of the eligible processes (all
  of them when there are fewer), ranked by oom_score_adj and then tasksize:
  the ranks in the pool are the first \<open>LOWMEM_DEATHPENDING_DEPTH\<close> = 3 of the
  eligible ranks sorted downwards, the tasks in the pool are eligible tasks of
  the list, and every reordering of the processes ends with the same ranks. For
  the arrivals (5,100), (8,50), (8,200), (3,900) the pool ends with
  (8,200), (8,50), (5,100).
\<close>

theorem pool_keeps_top_three:
  "(\<not> (deathpending \<and> list_ex memdie_pending ts) \<longrightarrow>
      (\<exists>pl. scan_tasks deathpending m ts (empty_pool m) = Some pl \<and>
         mset (map rank (selected_tasks pl)) =
           mset (take LOWMEM_DEATHPENDING_DEPTH (rev (sort (map rank (filter (eligible m) ts))))) \<and>
         mset (selected_tasks pl) \<subseteq># mset (filter (eligible m) ts) \<and>
         (\<forall>ts'. mset ts' = mset ts \<longrightarrow>
            (\<exists>pl'. scan_tasks deathpending m ts' (empty_pool m) = Some pl' \<and>
               mset (map rank (selected_tasks pl')) = mset (map rank (selected_tasks pl)))))) \<and>
   (\<exists>pl. scan_tasks False 0
            [candidate 1 5 100, candidate 2 8 50, candidate 3 8 200, candidate 4 3 900]
            (empty_pool 0) = Some pl \<and>
         mset (map rank (selected_tasks pl)) = {#(8, 200), (8, 50), (5, 100)#})"
proof (intro conjI impI)
  assume na: "\<not> (deathpending \<and> list_ex memdie_pending ts)"
  from scan_top[OF na, of m] obtain pl where pl:
    "scan_tasks deathpending m ts (empty_pool m) = Some pl"
    "mset (map rank (selected_tasks pl)) =
       mset (take LOWMEM_DEATHPENDING_DEPTH (rev (sort (map rank (filter (eligible m) ts)))))"
    "mset (selected_tasks pl) \<subseteq># mset (filter (eligible m) ts)" by blast
  have "\<exists>pl'. scan_tasks deathpending m ts' (empty_pool m) = Some pl' \<and>
          mset (map rank (selected_tasks pl')) = mset (map rank (selected_tasks pl))"
    if p: "mset ts' = mset ts" for ts'
  proof -
    have "\<not> (deathpending \<and> list_ex memdie_pending ts')"
      using na list_ex_mset[OF p, of memdie_pending] by simp
    from scan_top[OF this, of m] obtain pl' where
      "scan_tasks deathpending m ts' (empty_pool m) = Some pl'"
      "mset (map rank (selected_tasks pl')) =
         mset (take LOWMEM_DEATHPENDING_DEPTH (rev (sort (map rank (filter (eligible m) ts')))))"
      by blast
    then show ?thesis using pl(2) sort_rank_perm[OF p, of "eligible m"] by simp
  qed
  with pl show "\<exists>pl. scan_tasks deathpending m ts (empty_pool m) = Some pl \<and>
         mset (map rank (selected_tasks pl)) =
           mset (take LOWMEM_DEATHPENDING_DEPTH (rev (sort (map rank (filter (eligible m) ts))))) \<and>
         mset (selected_tasks pl) \<subseteq># mset (filter (eligible m) ts) \<and>
         (\<forall>ts'. mset ts' = mset ts \<longrightarrow>
            (\<exists>pl'. scan_tasks deathpending m ts' (empty_pool m) = Some pl' \<and>
               mset (map rank (selected_tasks pl')) = mset (map rank (selected_tasks pl))))"
    by blast
next
  have "\<not> (False \<and> list_ex memdie_pending
          [candidate 1 5 100, candidate 2 8 50, candidate 3 8 200, candidate 4 3 900])" by simp
  from scan_top[OF this, of 0] obtain pl where pl:
    "scan_tasks False 0 [candidate 1 5 100, candidate 2 8 50, candidate 3 8 200, candidate 4 3 900]
       (empty_pool 0) = Some pl"
    "mset (map rank (selected_tasks pl)) =
       mset (take LOWMEM_DEATHPENDING_DEPTH (rev (sort (map rank (filter (eligible 0)
         [candidate 1 5 100, candidate 2 8 50, candidate 3 8 200, candidate 4 3 900])))))"
    by blast
  have "take LOWMEM_DEATHPENDING_DEPTH (rev (sort (map rank (filter (eligible 0)
         [candidate 1 5 100, candidate 2 8 50, candidate 3 8 200, candidate 4 3 900]))))
        = [(8, 200), (8, 50), (5, 100)]"
    by (simp add: eligible_def rank_def candidate_def LOWMEM_DEATHPENDING_DEPTH_def less_eq_prod_def)
  with pl show "\<exists>pl. scan_tasks False 0
            [candidate 1 5 100, candidate 2 8 50, candidate 3 8 200, candidate 4 3 900]
            (empty_pool 0) = Some pl \<and>
         mset (map rank (selected_tasks pl)) = {#(8, 200), (8, 50), (5, 100)#}"
    by simp
qed

text \<open>Eight processes under cutoff 2 inside the death-pending window, none of
  them dying: a kernel thread, one below the cutoff and one without resident
  pages are skipped, and of the five candidates the three with oom_score_adj 9
  stay.\<close>

theorem pool_keeps_top_three_witness:
  "\<not> (True \<and> list_ex memdie_pending
        [candidate 1 9 10, candidate 2 2 70, candidate 3 9 30,
         (candidate 4 15 500)\<lparr>pf_kthread := True\<rparr>, candidate 5 7 20, candidate 6 9 20,
         candidate 7 1 800, candidate 8 12 0]) \<and>
   (\<exists>pl. scan_tasks True 2
        [candidate 1 9 10, candidate 2 2 70, candidate 3 9 30,
         (candidate 4 15 500)\<lparr>pf_kthread := True\<rparr>, candidate 5 7 20, candidate 6 9 20,
         candidate 7 1 800, candidate 8 12 0] (empty_pool 2) = Some pl \<and>
      mset (map rank (selected_tasks pl)) = {#(9, 30), (9, 20), (9, 10)#})"
  using pool_keeps_top_three
    [of True "[candidate 1 9 10, candidate 2 2 70, candidate 3 9 30,
         (candidate 4 15 500)\<lparr>pf_kthread := True\<rparr>, candidate 5 7 20, candidate 6 9 20,
         candidate 7 1 800, candidate 8 12 0]" 2]
  by (simp add: eligible_def rank_def candidate_def memdie_pending_def
      LOWMEM_DEATHPENDING_DEPTH_def less_eq_prod_def)

section \<open>Hysteresis\<close>



lemmas pool_defs = pool_offer_def is_exist_oom_task_def store_candidate_def
  find_weakest_def weakest_step_def empty_pool_def kill_selected_def kill_step_def
  LOWMEM_DEATHPENDING_DEPTH_def

text \<open>With the default tables and the lock free, a scan at time 5000 that finds
  1800 free pages, 500 file pages and one process of oom_score_adj 5 kills it
  and sets the deadline to 5100.\<close>

lemma default_tables_kill:
  assumes "lowmem_adj s = [0, 1, 6, 12, 0, 0]" "lowmem_adj_size s = 4"
    "lowmem_minfree s = [1536, 2048, 4096, 16384, 0, 0]" "lowmem_minfree_size s = 4"
    "lowmem_fork_boost s = 0" "\<not> scan_mutex s"
  shows "lowmem_shrink linux_kernel (sample_env\<lparr>tasks := [candidate 1 5 60]\<rparr>) s
     = (40,
        s\<lparr>lowmem_deathpending_timeout := 5100, lmk_count := lmk_count s + 1,
          lmk_running := 0, scan_mutex := False\<rparr>,
        [Set_lmk_running 1, Send_sigkill 1, Set_tif_memdie 1, Set_lmk_running 0])"
proof -
  let ?e = "sample_env\<lparr>tasks := [candidate 1 5 60]\<rparr>"
  have m: "min_score_adj_of linux_kernel ?e s = 1"
    using assms by (simp add: lookup_defs sample_env_def upt_rec)
  have b: "boost_minfree linux_kernel ?e s = s"
    using assms by (simp add: boost_minfree_def boosted_def)
  have h: "0 < nr_to_scan ?e" "\<not> scan_mutex s"
     "min_score_adj_of linux_kernel ?e s \<noteq> OOM_SCORE_ADJ_MAX linux_kernel + 1"
    using m assms by (simp_all add: sample_env_def linux_kernel_def)
  have sc: "scan_tasks (time_before_eq linux_kernel (jiffies ?e) (lowmem_deathpending_timeout s))
              1 (tasks ?e) (empty_pool 1)
        = Some \<lparr>selected = [Some (candidate 1 5 60), None, None],
           selected_tasksize = [60, 0, 0], selected_oom_score_adj = [5, 1, 1],
           all_selected_oom = 1, max_selected_oom_idx = 0\<rparr>"
    by (simp add: candidate_def pool_defs upt_rec Let_def numeral_3_eq_3 sample_env_def)
  show ?thesis
    unfolding lowmem_shrink_scan[OF h] m b sc
    by (simp add: pool_defs upt_rec rem_of_def sample_env_def candidate_def linux_kernel_def)
qed


section \<open>The \<open>lmk_running\<close> flag\<close>

lemma lmk_running_writes_append [simp]:
  "lmk_running_writes (xs @ ys) = lmk_running_writes xs @ lmk_running_writes ys"
  by (induction xs rule: lmk_running_writes.induct) simp_all

lemma kill_step_lmk:
  "\<exists>rem' s' kills. kill_step k e pl i (rem, s, evs) = (rem', s', evs @ kills) \<and>
      lmk_running_writes kills = [] \<and> lmk_running s' = lmk_running s"
  by (cases "selected pl ! i") (simp_all add: kill_step_def)

lemma fold_kill_step:
  "\<exists>rem' s' kills. fold (kill_step k e pl) is (rem, s, evs) = (rem', s', evs @ kills) \<and>
      lmk_running_writes kills = [] \<and> lmk_running s' = lmk_running s"
proof (induction "is" arbitrary: rem s evs)
  case Nil
  show ?case by simp
next
  case (Cons i "is")
  from kill_step_lmk[of k e pl i rem s evs] obtain rem1 s1 kills1 where
    1: "kill_step k e pl i (rem, s, evs) = (rem1, s1, evs @ kills1)"
      "lmk_running_writes kills1 = []" "lmk_running s1 = lmk_running s" by blast
  from Cons.IH[of rem1 s1 "evs @ kills1"] obtain rem2 s2 kills2 where
    2: "fold (kill_step k e pl) is (rem1, s1, evs @ kills1) = (rem2, s2, (evs @ kills1) @ kills2)"
      "lmk_running_writes kills2 = []" "lmk_running s2 = lmk_running s1" by blast
  show ?case
    using 1 2 by (intro exI[of _ rem2] exI[of _ s2] exI[of _ "kills1 @ kills2"]) simp
qed

lemma lowmem_shrink_lmk_running:
  "(lmk_running_writes (snd (snd (lowmem_shrink k e s))) = [] \<and>
      lmk_running (fst (snd (lowmem_shrink k e s))) = lmk_running s) \<or>
   (lmk_running_writes (snd (snd (lowmem_shrink k e s))) = [1, 0] \<and>
      lmk_running (fst (snd (lowmem_shrink k e s))) = 0)"
proof -
  have ms: "lmk_running_writes (maybe_sleep e) = []" by (simp add: maybe_sleep_def)
  show ?thesis
  proof (cases rule: lowmem_shrink_cases[where e = e and s = s and k = k])
    case contended
    then show ?thesis by (simp add: lowmem_shrink_contended ms)
  next
    case query
    then show ?thesis by (simp add: lowmem_shrink_query)
  next
    case no_pressure
    then show ?thesis by (simp add: lowmem_shrink_no_pressure)
  next
    case scan
    show ?thesis
    proof (cases "scan_tasks (time_before_eq k (jiffies e) (lowmem_deathpending_timeout s))
            (min_score_adj_of k e s) (tasks e) (empty_pool (min_score_adj_of k e s))")
      case None
      then show ?thesis using lowmem_shrink_scan[OF scan] by (simp add: ms)
    next
      case (Some pl)
      from fold_kill_step[of k e pl "[0 ..< LOWMEM_DEATHPENDING_DEPTH]" "rem_of e"
          "(boost_minfree k e s)\<lparr>scan_mutex := True, lmk_running := 1\<rparr>" "[Set_lmk_running 1]"]
      obtain rem' s' kills where
        "kill_selected k e pl (rem_of e, (boost_minfree k e s)\<lparr>scan_mutex := True, lmk_running := 1\<rparr>,
            [Set_lmk_running 1]) = (rem', s', [Set_lmk_running 1] @ kills)"
        "lmk_running_writes kills = []"
        unfolding kill_selected_def by blast
      then show ?thesis using lowmem_shrink_scan[OF scan] Some by simp
    qed
  qed
qed

lemma could_cswap_wakes:
  assumes "lmk_running s = 0" "need_to_reclaim s = 1"
    "\<not> time_before k (cs_jiffies c) (prev_jiffy s + minimum_interval_time s)"
    "kswapd_thread_on c \<noteq> 1" "\<not> nr_swap_pages c < minimum_freeswap_pages s"
    "kcompcached s" "kcompcached_enable s \<noteq> 0" "kcompcached_cpu_idle c" "this_cpu_loadx c = 0"
    "\<not> (idle_report s = 1 \<and> 0 < hidden_cgroup_counter s)" "kcompcached_running s = 0"
  shows "snd (could_cswap k c s) = [Wake_up_kcompcached]"
  using assms by (auto simp: could_cswap_def)

lemma could_cswap_refuses:
  "lmk_running t = 1 \<longrightarrow> could_cswap k c t = (t, [])"
  by (simp add: could_cswap_def)

text \<open>
  Claim C10: a call of \<open>lowmem_shrink\<close> either never writes \<open>lmk_running\<close>, or
  writes 1 and then 0 and returns with the flag at 0; the second case covers the
  return from inside the process loop (line 345) and the return at the end
  (line 470). \<open>could_cswap\<close> refuses while the flag is 1: in any state \<open>t\<close> with
  \<open>lmk_running = 1\<close> it returns at line 477, 480 or 483, leaving the state as it
  was and waking nobody. But a call of \<open>lowmem_shrink\<close> entered with the flag at 0
  leaves it at 0, and a \<open>could_cswap\<close> that follows it and passes the other tests
  of lines 476 to 510 wakes the worker: the test of \<open>lmk_running\<close> at line 482
  does not stop it.
\<close>

theorem lmk_running_never_stale:
  fixes k e s c t
  defines "s' \<equiv> fst (snd (lowmem_shrink k e s))"
      and "writes \<equiv> lmk_running_writes (snd (snd (lowmem_shrink k e s)))"
  shows "((writes = [] \<and> lmk_running s' = lmk_running s) \<or>
          (writes = [1, 0] \<and> lmk_running s' = 0)) \<and>
         (lmk_running t = 1 \<longrightarrow> could_cswap k c t = (t, [])) \<and>
         (lmk_running s = 0 \<longrightarrow>
            lmk_running s' = 0 \<and>
            (need_to_reclaim s' = 1 \<and>
             \<not> time_before k (cs_jiffies c) (prev_jiffy s' + minimum_interval_time s') \<and>
             kswapd_thread_on c \<noteq> 1 \<and>
             \<not> nr_swap_pages c < minimum_freeswap_pages s' \<and>
             kcompcached s' \<and> kcompcached_enable s' \<noteq> 0 \<and>
             kcompcached_cpu_idle c \<and> this_cpu_loadx c = 0 \<and>
             \<not> (idle_report s' = 1 \<and> 0 < hidden_cgroup_counter s') \<and>
             kcompcached_running s' = 0 \<longrightarrow>
             snd (could_cswap k c s') = [Wake_up_kcompcached]))"
proof -
  have 1: "(writes = [] \<and> lmk_running s' = lmk_running s) \<or>
          (writes = [1, 0] \<and> lmk_running s' = 0)"
    unfolding s'_def writes_def by (rule lowmem_shrink_lmk_running)
  then have 2: "lmk_running s = 0 \<Longrightarrow> lmk_running s' = 0" by auto
  have 3: "lmk_running t = 1 \<longrightarrow> could_cswap k c t = (t, [])"
    by (rule could_cswap_refuses)
  show ?thesis using 1 2 3 could_cswap_wakes[of s' k c] by blast
qed

text \<open>With a reclaim pass requested, the processor idle and every other test
  passed, \<open>could_cswap\<close> does nothing in a state whose flag is 1. A scan that
  kills a process, entered with the flag at 0, writes 1 and then 0, and the
  \<open>could_cswap\<close> that follows it wakes the worker.\<close>

theorem lmk_running_never_stale_witness:
  "lmk_running (armed_state\<lparr>lmk_running := 1\<rparr>) = 1 \<and>
   could_cswap linux_kernel idle_env (armed_state\<lparr>lmk_running := 1\<rparr>)
     = (armed_state\<lparr>lmk_running := 1\<rparr>, []) \<and>
   lmk_running armed_state = 0 \<and>
   lmk_running_writes (snd (snd (lowmem_shrink linux_kernel
      (sample_env\<lparr>tasks := [candidate 1 5 60]\<rparr>) armed_state))) = [1, 0] \<and>
   lmk_running (fst (snd (lowmem_shrink linux_kernel
      (sample_env\<lparr>tasks := [candidate 1 5 60]\<rparr>) armed_state))) = 0 \<and>
   snd (could_cswap linux_kernel idle_env (fst (snd (lowmem_shrink linux_kernel
      (sample_env\<lparr>tasks := [candidate 1 5 60]\<rparr>) armed_state)))) = [Wake_up_kcompcached]"
proof -
  have k: "lowmem_shrink linux_kernel (sample_env\<lparr>tasks := [candidate 1 5 60]\<rparr>) armed_state
     = (40,
        armed_state\<lparr>lowmem_deathpending_timeout := 5100, lmk_count := lmk_count armed_state + 1,
          lmk_running := 0, scan_mutex := False\<rparr>,
        [Set_lmk_running 1, Send_sigkill 1, Set_tif_memdie 1, Set_lmk_running 0])"
    by (rule default_tables_kill)
       (simp_all add: armed_state_def need_soft_reclaim_def lowmem_init_def
          enable_soft_reclaim_def initial_state_def)
  have f: "lmk_running (armed_state\<lparr>lmk_running := 1\<rparr>) = 1" by simp
  have r: "could_cswap linux_kernel idle_env (armed_state\<lparr>lmk_running := 1\<rparr>)
     = (armed_state\<lparr>lmk_running := 1\<rparr>, [])"
    using lmk_running_never_stale
      [where k = linux_kernel and e = "sample_env\<lparr>tasks := [candidate 1 5 60]\<rparr>"
         and s = armed_state and c = idle_env and t = "armed_state\<lparr>lmk_running := 1\<rparr>"] f
    by blast
  have w: "lmk_running armed_state = 0 \<and>
   lmk_running_writes (snd (snd (lowmem_shrink linux_kernel
      (sample_env\<lparr>tasks := [candidate 1 5 60]\<rparr>) armed_state))) = [1, 0] \<and>
   lmk_running (fst (snd (lowmem_shrink linux_kernel
      (sample_env\<lparr>tasks := [candidate 1 5 60]\<rparr>) armed_state))) = 0 \<and>
   snd (could_cswap linux_kernel idle_env (fst (snd (lowmem_shrink linux_kernel
      (sample_env\<lparr>tasks := [candidate 1 5 60]\<rparr>) armed_state)))) = [Wake_up_kcompcached]"
    using lmk_running_never_stale
      [where k = linux_kernel and e = "sample_env\<lparr>tasks := [candidate 1 5 60]\<rparr>"
         and s = armed_state and c = idle_env and t = "armed_state\<lparr>lmk_running := 1\<rparr>"]
    unfolding k
    by (simp add: armed_state_def need_soft_reclaim_def lowmem_init_def
          enable_soft_reclaim_def initial_state_def idle_env_def linux_kernel_def)
  show ?thesis using f r w by blast
qed

section \<open>The background worker\<close>

lemma soft_reclaim_zone_frame:
  "minimun_reclaim_pages (snd (soft_reclaim_zone z acc)) = minimun_reclaim_pages (snd acc) \<and>
   need_to_reclaim (snd (soft_reclaim_zone z acc)) = need_to_reclaim (snd acc)"
  by (cases acc) (simp add: soft_reclaim_zone_def)

lemma soft_reclaim_node_frame:
  "minimun_reclaim_pages (snd (soft_reclaim_node n acc)) = minimun_reclaim_pages (snd acc) \<and>
   need_to_reclaim (snd (soft_reclaim_node n acc)) = need_to_reclaim (snd acc)"
  by (simp add: soft_reclaim_node_def soft_reclaim_zone_frame)

lemma fold_soft_reclaim_frame:
  "minimun_reclaim_pages (snd (fold soft_reclaim_node nodes acc)) = minimun_reclaim_pages (snd acc) \<and>
   need_to_reclaim (snd (fold soft_reclaim_node nodes acc)) = need_to_reclaim (snd acc)"
  by (induction nodes arbitrary: acc) (simp_all add: soft_reclaim_node_frame)

lemma soft_reclaim_frame:
  "minimun_reclaim_pages (snd (soft_reclaim nodes s)) = minimun_reclaim_pages s"
  "need_to_reclaim (snd (soft_reclaim nodes s)) = need_to_reclaim s"
  using fold_soft_reclaim_frame[of nodes "(0, s)"] by (simp_all add: soft_reclaim_def)

lemma soft_reclaim_zone_fst:
  "fst (soft_reclaim_zone z acc) = fst acc + (if reclaimable z then soft_limit_reclaimed z else 0)"
  by (cases acc) (simp add: soft_reclaim_zone_def reclaimable_def)

lemma fold_soft_reclaim_fst:
  "fst (fold soft_reclaim_node nodes acc) =
     fst acc + sum_list (map soft_limit_reclaimed (filter reclaimable (zones_of nodes)))"
  by (induction nodes arbitrary: acc)
     (simp_all add: zones_of_def soft_reclaim_node_def soft_reclaim_zone_fst)

lemma soft_reclaim_fst:
  "fst (soft_reclaim nodes s) = sum_list (map soft_limit_reclaimed (filter reclaimable (zones_of nodes)))"
  by (simp add: soft_reclaim_def fold_soft_reclaim_fst)

text \<open>
  Claim C7: a pass of the worker reclaims the sum of what
  \<open>mem_cgroup_soft_limit_reclaim\<close> returns for the populated, reclaimable zones
  0 and 1 of each node. If that is below \<open>minimun_reclaim_pages\<close> the pass leaves
  \<open>need_to_reclaim\<close> at 0; if not, it leaves the flag as it found it. Either way
  \<open>kcompcached_running\<close> is 0 when the worker goes to sleep.
\<close>

theorem short_pass_clears_need_to_reclaim:
  "fst (soft_reclaim nodes s) =
     sum_list (map soft_limit_reclaimed (filter reclaimable (zones_of nodes))) \<and>
   (fst (soft_reclaim nodes s) < minimun_reclaim_pages s \<longrightarrow>
      need_to_reclaim (compcache_pass nodes s) = 0) \<and>
   (\<not> fst (soft_reclaim nodes s) < minimun_reclaim_pages s \<longrightarrow>
      need_to_reclaim (compcache_pass nodes s) = need_to_reclaim s) \<and>
   kcompcached_running (compcache_pass nodes s) = 0 \<and>
   do_compcache [(False, nodes)] s = compcache_pass nodes s"
  using soft_reclaim_frame[of nodes s] soft_reclaim_fst[of nodes s]
  by (cases "soft_reclaim nodes s") (auto simp: compcache_pass_def cancel_soft_reclaim_def)

text \<open>With \<open>minimun_reclaim_pages = 512\<close> and the flag set: a pass that reclaims 511
  pages clears the flag, a pass that reclaims 512 leaves it set.\<close>

theorem short_pass_clears_need_to_reclaim_witness:
  "fst (soft_reclaim [(zone_yield 300, zone_yield 211)] armed_state) = 511 \<and>
   fst (soft_reclaim [(zone_yield 300, zone_yield 211)] armed_state)
     < minimun_reclaim_pages armed_state \<and>
   need_to_reclaim armed_state = 1 \<and>
   need_to_reclaim (compcache_pass [(zone_yield 300, zone_yield 211)] armed_state) = 0 \<and>
   fst (soft_reclaim [(zone_yield 300, zone_yield 212)] armed_state) = 512 \<and>
   \<not> fst (soft_reclaim [(zone_yield 300, zone_yield 212)] armed_state)
     < minimun_reclaim_pages armed_state \<and>
   need_to_reclaim (compcache_pass [(zone_yield 300, zone_yield 212)] armed_state) = 1"
  using short_pass_clears_need_to_reclaim[of "[(zone_yield 300, zone_yield 211)]" armed_state]
    short_pass_clears_need_to_reclaim[of "[(zone_yield 300, zone_yield 212)]" armed_state]
  by (simp add: zones_of_def reclaimable_def zone_yield_def armed_state_def need_soft_reclaim_def
      lowmem_init_def enable_soft_reclaim_def initial_state_def)

end
